theory Spec2Isabelle
  imports
    Complex_Main
    "HOL-Library.Char_ord"
    "HOL-Library.List_Lexorder"
    "HOL-Library.Log_Nat"
    "HOL-Library.Product_Lexorder"
    "HOL-Library.Sublist"
begin

section \<open>Kunstlotteri: the ingestion and aggregation pipeline of app.py\<close>

text \<open>
  Scope of the embedding.

  \<^item> Text is \<^typ>\<open>string\<close>. Case folding, whitespace and the regular expression classes
    \<open>\s\<close>, \<open>\w\<close>, \<open>[A-Z]\<close> are modelled on the ASCII range; a character outside ASCII is
    neither a letter, nor whitespace, nor a word character here.
  \<^item> Cells are taken after pandas has converted them: a text column holds the result of
    \<open>astype(str)\<close> or \<open>str(...)\<close> (a missing value is the text \<open>nan\<close>, an absent optional
    column is the default \<open>""\<close> of \<open>row.get\<close>), and \<open>Brutto\<close> holds the result of
    \<open>pd.to_numeric(..., errors="coerce").fillna(0)\<close>.
  \<^item> Amounts are float64 values, each written as the rational number it denotes, and the
    sum and the quotient of the aggregator round as float64 arithmetic does. The
    non-finite values, the signed zeros and the overflow and subnormal ranges are not
    modelled. The number input gives the ticket price as a Python \<open>int\<close> below \<open>2^53\<close>, so
    \<open>float(loddpris)\<close> is the price itself.
  \<^item> The Streamlit widgets, charts and the footer are not modelled; what they are given
    to display is.
\<close>

subsection \<open>Characters and the string helpers of Python\<close>

definition is_upper :: "char \<Rightarrow> bool" where
  "is_upper c = (CHR ''A'' \<le> c \<and> c \<le> CHR ''Z'')"

definition is_lower :: "char \<Rightarrow> bool" where
  "is_lower c = (CHR ''a'' \<le> c \<and> c \<le> CHR ''z'')"

definition is_digit :: "char \<Rightarrow> bool" where
  "is_digit c = (CHR ''0'' \<le> c \<and> c \<le> CHR ''9'')"

definition is_letter :: "char \<Rightarrow> bool" where
  "is_letter c = (is_upper c \<or> is_lower c)"

text \<open>\<open>\w\<close>: letters, digits and the underscore.\<close>

definition is_word :: "char \<Rightarrow> bool" where
  "is_word c = (is_letter c \<or> is_digit c \<or> c = CHR ''_'')"

text \<open>\<open>\s\<close> and \<open>str.isspace\<close>: tab, LF, VT, FF, CR, the separators 0x1C to 0x1F, space.\<close>

definition is_space :: "char \<Rightarrow> bool" where
  "is_space c = (c \<in> {CHR 0x09, CHR 0x0A, CHR 0x0B, CHR 0x0C, CHR 0x0D,
                       CHR 0x1C, CHR 0x1D, CHR 0x1E, CHR 0x1F, CHR '' ''})"

definition lower_char :: "char \<Rightarrow> char" where
  "lower_char c = (if is_upper c then char_of (of_char c + (32::nat)) else c)"

definition upper_char :: "char \<Rightarrow> char" where
  "upper_char c = (if is_lower c then char_of (of_char c - (32::nat)) else c)"

definition lower :: "string \<Rightarrow> string" where
  "lower s = map lower_char s"

definition upper :: "string \<Rightarrow> string" where
  "upper s = map upper_char s"

text \<open>\<open>str.strip()\<close> with no argument.\<close>

definition strip :: "string \<Rightarrow> string" where
  "strip s = rev (dropWhile is_space (rev (dropWhile is_space s)))"

text \<open>
  A literal of a pattern compiled with \<open>re.IGNORECASE\<close>, matched at the start of the
  text: the rest of the text after the match, or \<open>None\<close>.
\<close>

fun match_literal_ci :: "string \<Rightarrow> string \<Rightarrow> string option" where
  "match_literal_ci [] s = Some s"
| "match_literal_ci (p # ps) [] = None"
| "match_literal_ci (p # ps) (c # cs) =
     (if lower_char c = lower_char p then match_literal_ci ps cs else None)"

text \<open>
  \<open>Series.str.contains(lit, case=False)\<close> for a pattern without metacharacters:
  the literal occurs somewhere, compared case-insensitively.
\<close>

fun contains_ci :: "string \<Rightarrow> string \<Rightarrow> bool" where
  "contains_ci lit [] = (match_literal_ci lit [] \<noteq> None)"
| "contains_ci lit (c # cs) = (match_literal_ci lit (c # cs) \<noteq> None \<or> contains_ci lit cs)"

subsection \<open>Header locator\<close>

text \<open>
  \<open>re.search(r"\bSalgssted\b", cell, re.IGNORECASE)\<close>. The scan goes left to right and
  carries whether the character before the current position is a word character
  (\<open>False\<close> at the start of the text). The marker begins and ends with a word
  character, so the first \<open>\b\<close> asks for no word character before the match and the
  second for none after it.
\<close>

definition marker_at :: "string \<Rightarrow> bool" where
  "marker_at s =
     (case match_literal_ci ''Salgssted'' s of
        None \<Rightarrow> False
      | Some rest \<Rightarrow> (case rest of [] \<Rightarrow> True | d # _ \<Rightarrow> \<not> is_word d))"

fun marker_search :: "bool \<Rightarrow> string \<Rightarrow> bool" where
  "marker_search prev [] = False"
| "marker_search prev (c # cs) =
     ((\<not> prev \<and> marker_at (c # cs)) \<or> marker_search (is_word c) cs)"

definition cell_has_marker :: "string \<Rightarrow> bool" where
  "cell_has_marker s = marker_search False s"

text \<open>A raw grid: rows of cells, each cell already converted by \<open>astype(str)\<close>.\<close>

type_synonym raw_grid = "string list list"

definition row_has_marker :: "string list \<Rightarrow> bool" where
  "row_has_marker row = list_ex cell_has_marker row"

text \<open>The loop \<open>for i in range(min(len(raw), 200))\<close>, from index \<open>i\<close> on.\<close>

fun find_header_from :: "nat \<Rightarrow> nat \<Rightarrow> raw_grid \<Rightarrow> nat option" where
  "find_header_from i n [] = None"
| "find_header_from i n (row # rows) =
     (if n \<le> i then None
      else if row_has_marker row then Some i
      else find_header_from (Suc i) n rows)"

definition find_header_row :: "raw_grid \<Rightarrow> nat option" where
  "find_header_row raw = find_header_from 0 (min (length raw) 200) raw"

subsection \<open>The report after normalisation\<close>

text \<open>
  One data row of the normalised report, with the columns the script reads. The field
  names are the column labels of the Vipps export.
\<close>

record vipps_row =
  Salgssted :: string
  Transaksjonstype :: string
  Brutto :: rat
  Fornavn :: string
  Etternavn :: string
  Melding :: string

text \<open>\<open>df_lodd\<close> gains the columns \<open>Bilde\<close> and \<open>Navn\<close>.\<close>

record lodd_row = vipps_row +
  Bilde :: string
  Navn :: string

record vipps_table =
  columns :: "string list"
  rows :: "vipps_row list"

datatype name_mode = Fullt_navn | Kun_fornavn

record settings =
  loddpris :: int
  navnformat :: name_mode
  round_down :: bool

subsection \<open>Required columns\<close>

text \<open>
  \<open>required_cols\<close> is a Python set; the order in which it is iterated is not fixed by
  the language, and the list below is one such order.
\<close>

definition required_cols :: "string list" where
  "required_cols = [''Salgssted'', ''Transaksjonstype'', ''Brutto'']"

definition missing_cols :: "string list \<Rightarrow> string list" where
  "missing_cols cols = filter (\<lambda>c. c \<notin> set cols) required_cols"

fun join :: "string \<Rightarrow> string list \<Rightarrow> string" where
  "join sep [] = []"
| "join sep [x] = x"
| "join sep (x # y # ys) = x @ sep @ join sep (y # ys)"

text \<open>
  \<open>repr\<close> of a string without quotes, backslashes or control characters (the three
  required labels are such), and of a list of them, as the f-string formats \<open>{missing}\<close>.
\<close>

definition py_repr_str :: "string \<Rightarrow> string" where
  "py_repr_str s = [CHR 0x27] @ s @ [CHR 0x27]"

definition py_repr_list :: "string list \<Rightarrow> string" where
  "py_repr_list xs = ''['' @ join '', '' (map py_repr_str xs) @ '']''"

definition schema_error_message :: "string list \<Rightarrow> string" where
  "schema_error_message missing =
     ''Mangler forventede kolonner i rapporten: '' @ py_repr_list missing"

subsection \<open>Row filter and tagger\<close>

definition is_lodd_sale :: "vipps_row \<Rightarrow> bool" where
  "is_lodd_sale r =
     (lower (strip (Transaksjonstype r)) = ''salg''
      \<and> contains_ci ''Lodd bilde'' (Salgssted r))"

text \<open>
  \<open>BILDE_RE = re.compile(r"lodd\s*bilde\s*([A-Z])", re.IGNORECASE)\<close>, matched at the
  start of the text; the result is the captured group. Each \<open>\s*\<close> is greedy, and the
  pattern element after it (the letter b, a letter of \<open>[A-Z]\<close>) never matches
  whitespace, so giving whitespace back cannot produce another match.
\<close>

definition bilde_match_at :: "string \<Rightarrow> string option" where
  "bilde_match_at s =
     (case match_literal_ci ''lodd'' s of
        None \<Rightarrow> None
      | Some s1 \<Rightarrow>
          (case match_literal_ci ''bilde'' (dropWhile is_space s1) of
             None \<Rightarrow> None
           | Some s2 \<Rightarrow>
               (case dropWhile is_space s2 of
                  [] \<Rightarrow> None
                | c # _ \<Rightarrow> if is_letter c then Some [c] else None)))"

text \<open>\<open>BILDE_RE.search\<close>: the match at the leftmost position that has one.\<close>

fun bilde_search :: "string \<Rightarrow> string option" where
  "bilde_search [] = bilde_match_at []"
| "bilde_search (c # cs) =
     (case bilde_match_at (c # cs) of
        Some g \<Rightarrow> Some g
      | None \<Rightarrow> bilde_search cs)"

definition extract_bilde :: "string \<Rightarrow> string option" where
  "extract_bilde salgssted =
     (if salgssted = [] \<or> lower salgssted = ''nan'' then None
      else (case bilde_search salgssted of
              Some g \<Rightarrow> Some (upper g)
            | None \<Rightarrow> None))"

subsection \<open>Name resolver\<close>

definition build_full_name :: "vipps_row \<Rightarrow> string" where
  "build_full_name row =
     (let fn = strip (Fornavn row);
          en = strip (Etternavn row)
      in if fn \<noteq> [] \<and> lower fn \<noteq> ''nan'' then
           (if en \<noteq> [] \<and> lower en \<noteq> ''nan'' then strip (fn @ '' '' @ en) else fn)
         else
           (let msg = strip (Melding row)
            in if msg \<noteq> [] \<and> lower msg \<noteq> ''nan'' then msg else ''Ukjent''))"

text \<open>The lambda of the "Kun fornavn" mode; \<open>split(" ")[0]\<close> is the text before the first space.\<close>

definition first_name_only :: "string \<Rightarrow> string" where
  "first_name_only s =
     (if strip s \<noteq> [] then takeWhile (\<lambda>c. c \<noteq> CHR '' '') (strip s) else ''Ukjent'')"

definition resolve_name :: "name_mode \<Rightarrow> vipps_row \<Rightarrow> string" where
  "resolve_name m row =
     (case m of
        Fullt_navn \<Rightarrow> build_full_name row
      | Kun_fornavn \<Rightarrow> first_name_only (build_full_name row))"

text \<open>
  The rows of \<open>df_lodd\<close> once \<open>Bilde\<close> and \<open>Navn\<close> are set: a row whose extraction gives
  \<open>None\<close> is removed by \<open>df_lodd[df_lodd["Bilde"].notna()]\<close>.
\<close>

definition tag_row :: "name_mode \<Rightarrow> vipps_row \<Rightarrow> lodd_row option" where
  "tag_row m r =
     (case extract_bilde (Salgssted r) of
        None \<Rightarrow> None
      | Some b \<Rightarrow> Some (vipps_row.extend r \<lparr>Bilde = b, Navn = resolve_name m r\<rparr>))"

definition tag_rows :: "name_mode \<Rightarrow> vipps_row list \<Rightarrow> lodd_row list" where
  "tag_rows m rs = List.map_filter (tag_row m) rs"

subsection \<open>float64 arithmetic\<close>

text \<open>
  The numeric columns of the data frames are float64. A float64 value is written here as
  the rational number it denotes, and an operation of pandas or numpy on such values is
  the exact operation followed by \<open>fl64\<close>, the rounding of IEEE 754 to the nearest
  float64 with ties going to the even significand. Infinities, NaN, signed zeros and
  the subnormal and overflow ranges (magnitudes below \<open>2^-1022\<close> or from \<open>2^1024\<close> on) are
  outside the embedding.
\<close>

text \<open>
  Rounding to the nearest integer, halves to the even one: the last step of \<open>fl64\<close>, and
  what \<open>Series.round()\<close> (numpy's \<open>rint\<close>) does to a float64.
\<close>

definition round_half_even :: "rat \<Rightarrow> int" where
  "round_half_even x =
     (let f = \<lfloor>x\<rfloor>; d = x - of_int f
      in if d < 1 / 2 then f
         else if 1 / 2 < d then f + 1
         else if even f then f else f + 1)"

text \<open>
  For a positive \<open>x\<close>, the exponent \<open>e\<close> with \<open>2^e \<le> x < 2^(e+1)\<close>, from the bit lengths of
  numerator and denominator.
\<close>

definition binade :: "rat \<Rightarrow> int" where
  "binade x =
     (let k = bitlen (fst (quotient_of x)) - bitlen (snd (quotient_of x))
      in if 2 powi k \<le> x then k else k - 1)"

text \<open>The nearest float64: the significand has 53 bits.\<close>

definition fl64 :: "rat \<Rightarrow> rat" where
  "fl64 x =
     (if x = 0 then 0
      else (let e = binade \<bar>x\<bar> - 52
            in sgn x * of_int (round_half_even (\<bar>x\<bar> / 2 powi e)) * 2 powi e))"

text \<open>
  A test that a rational is a float64 value: in lowest terms the numerator is below
  \<open>2^53\<close> in magnitude and the denominator is a power of two.
\<close>

definition is_f64 :: "rat \<Rightarrow> bool" where
  "is_f64 x =
     (\<bar>fst (quotient_of x)\<bar> < 2 ^ 53
      \<and> snd (quotient_of x) = 2 ^ nat (bitlen (snd (quotient_of x)) - 1))"

definition f64_add :: "rat \<Rightarrow> rat \<Rightarrow> rat" where
  "f64_add x y = fl64 (x + y)"

definition f64_sub :: "rat \<Rightarrow> rat \<Rightarrow> rat" where
  "f64_sub x y = fl64 (x - y)"

definition f64_div :: "rat \<Rightarrow> rat \<Rightarrow> rat" where
  "f64_div x y = fl64 (x / y)"

text \<open>
  The sum of a group. \<open>groupby(...).agg(Brutto=("Brutto", "sum"))\<close> runs the loop of
  \<open>group_sum\<close> in \<open>pandas/_libs/groupby.pyx\<close>, a compensated (Kahan) summation over the
  rows of the group in their order:
  \<^verbatim>\<open>y = val - compensation; t = sumx + y; compensation = t - sumx - y; sumx = t\<close>.
  The accumulator is the pair \<open>(sumx, compensation)\<close>, both zero at the start.
\<close>

definition kahan_step :: "rat \<times> rat \<Rightarrow> rat \<Rightarrow> rat \<times> rat" where
  "kahan_step acc val =
     (let y = f64_sub val (snd acc);
          t = f64_add (fst acc) y
      in (t, f64_sub (f64_sub t (fst acc)) y))"

definition kahan_sum :: "rat list \<Rightarrow> rat" where
  "kahan_sum vals = fst (foldl kahan_step (0, 0) vals)"

subsection \<open>Aggregator\<close>

text \<open>One row of \<open>agg\<close>; its \<open>Bilde\<close>, \<open>Navn\<close> and \<open>Brutto\<close> columns carry the prefix \<open>agg_\<close> here.\<close>

record agg_row =
  agg_Bilde :: string
  agg_Navn :: string
  agg_Brutto :: rat
  Lodd_raw :: rat
  Lodd :: int

definition group_key :: "lodd_row \<Rightarrow> string \<times> string" where
  "group_key r = (Bilde r, Navn r)"

text \<open>\<open>groupby\<close> sorts the group keys (\<open>sort=True\<close> is its default).\<close>

definition group_keys :: "lodd_row list \<Rightarrow> (string \<times> string) list" where
  "group_keys rs = sort (remdups (map group_key rs))"

text \<open>
  The \<open>Brutto\<close> column of \<open>df_lodd\<close> is the float64 column that \<open>pd.to_numeric\<close> returns:
  the cell of a row is \<open>fl64 (Brutto r)\<close>, which is \<open>Brutto r\<close> itself when that is a float64
  value. The sum of a group runs over its rows in the order of the report.
\<close>

definition group_sum :: "lodd_row list \<Rightarrow> string \<times> string \<Rightarrow> rat" where
  "group_sum rs k = kahan_sum (map (\<lambda>r. fl64 (Brutto r)) (filter (\<lambda>r. group_key r = k) rs))"

text \<open>
  \<open>int(math.floor(v))\<close> under the floor policy, \<open>.round().astype(int)\<close> otherwise; both are
  exact on a float64.
\<close>

definition lodd_of :: "bool \<Rightarrow> rat \<Rightarrow> int" where
  "lodd_of rd v = (if rd then \<lfloor>v\<rfloor> else round_half_even v)"

definition agg_entry :: "settings \<Rightarrow> lodd_row list \<Rightarrow> string \<times> string \<Rightarrow> agg_row" where
  "agg_entry st rs k =
     (let b = group_sum rs k;
          raw = f64_div b (of_int (loddpris st))
      in \<lparr>agg_Bilde = fst k, agg_Navn = snd k, agg_Brutto = b,
          Lodd_raw = raw, Lodd = lodd_of (round_down st) raw\<rparr>)"

definition aggregate :: "settings \<Rightarrow> lodd_row list \<Rightarrow> agg_row list" where
  "aggregate st rs = map (agg_entry st rs) (group_keys rs)"

text \<open>
  The \<open>%\<close> of floats with a positive divisor: the remainder lies in \<open>[0, b)\<close>. The script
  only tests it against zero, and numpy's remainder of two float64 values is zero exactly
  when the exact remainder is (it comes from \<open>fmod\<close>, which does not round).
\<close>

definition py_mod :: "rat \<Rightarrow> rat \<Rightarrow> rat" where
  "py_mod a b = a - b * of_int \<lfloor>a / b\<rfloor>"

definition is_non_multiple :: "settings \<Rightarrow> agg_row \<Rightarrow> bool" where
  "is_non_multiple st e = (py_mod (agg_Brutto e) (of_int (loddpris st)) \<noteq> 0)"

text \<open>The detail table: \<open>Bilde\<close>, \<open>Navn\<close>, "Betalt sum", "Betalt / Pris per lodd".\<close>

definition non_multiple :: "settings \<Rightarrow> agg_row list \<Rightarrow> (string \<times> string \<times> rat \<times> rat) list" where
  "non_multiple st ag =
     map (\<lambda>e. (agg_Bilde e, agg_Navn e, agg_Brutto e, Lodd_raw e))
         (filter (is_non_multiple st) ag)"

subsection \<open>One tab per artwork\<close>

record sub_row = agg_row +
  Lodd_clamped :: int

definition sort_sub :: "agg_row list \<Rightarrow> agg_row list" where
  "sort_sub es = sort_key (\<lambda>e. (- Lodd e, agg_Navn e)) es"

definition clamp_row :: "agg_row \<Rightarrow> sub_row" where
  "clamp_row e = agg_row.extend e \<lparr>Lodd_clamped = max (Lodd e) 0\<rparr>"

definition sub_of :: "string \<Rightarrow> agg_row list \<Rightarrow> sub_row list" where
  "sub_of bilde ag = map clamp_row (sort_sub (filter (\<lambda>e. agg_Bilde e = bilde) ag))"

fun wheel_names :: "sub_row list \<Rightarrow> string list" where
  "wheel_names [] = []"
| "wheel_names (r # rs) =
     (if Lodd_clamped r \<le> 0 then wheel_names rs
      else replicate (nat (Lodd_clamped r)) (agg_Navn r) @ wheel_names rs)"

definition wheel_text :: "sub_row list \<Rightarrow> string" where
  "wheel_text sub = join [CHR 0x0A] (wheel_names sub)"







definition bilder :: "agg_row list \<Rightarrow> string list" where
  "bilder ag = sort (remdups (map agg_Bilde ag))"

subsection \<open>The script from the normalised report on\<close>

text \<open>
  The outcomes are the schema error of \<open>st.error\<close> followed by \<open>st.stop()\<close>, the warning
  for a report without ticket rows, and otherwise the tables the script builds: \<open>agg\<close>,
  the detail table of the non-multiples, which the page shows in an expander, and one
  \<open>sub\<close> per artwork, from which the widgets of the tab are filled. Reading the sheet
  (\<open>read_vipps_report\<close>) comes before and is not part of this function. When every
  ticket row loses its artwork letter the aggregate is empty and there is no tab; what
  Streamlit does with an empty list of tabs is outside the embedding.
\<close>

record report =
  agg :: "agg_row list"
  detail :: "(string \<times> string \<times> rat \<times> rat) list"
  tabs :: "(string \<times> sub_row list) list"

datatype outcome =
    SchemaError string
  | NoLoddRows
  | Report report

definition run_pipeline :: "settings \<Rightarrow> vipps_table \<Rightarrow> outcome" where
  "run_pipeline st df =
     (let missing = missing_cols (columns df)
      in if missing \<noteq> [] then SchemaError (schema_error_message missing)
         else
           (let df_lodd = filter is_lodd_sale (rows df)
            in if df_lodd = [] then NoLoddRows
               else
                 (let ag = aggregate st (tag_rows (navnformat st) df_lodd)
                  in Report \<lparr>agg = ag,
                             detail = non_multiple st ag,
                             tabs = map (\<lambda>b. (b, sub_of b ag)) (bilder ag)\<rparr>)))"

subsection \<open>Statements of the specification, kept apart from the code\<close>

text \<open>
  The name resolver as the specification words it: a name field or the message counts
  as absent when it is empty or is the literal text \<open>nan\<close>.
\<close>

definition build_full_name_spec :: "vipps_row \<Rightarrow> string" where
  "build_full_name_spec row =
     (let fn = strip (Fornavn row);
          en = strip (Etternavn row);
          msg = strip (Melding row)
      in if fn \<noteq> [] \<and> fn \<noteq> ''nan'' then
           (if en \<noteq> [] \<and> en \<noteq> ''nan'' then fn @ '' '' @ en else fn)
         else if msg \<noteq> [] \<and> msg \<noteq> ''nan'' then msg
         else ''Ukjent'')"

text \<open>
  The artwork pattern as the specification words it: the literal phrase, then
  whitespace, then one letter.
\<close>

definition bilde_match_at_spec :: "string \<Rightarrow> string option" where
  "bilde_match_at_spec s =
     (case match_literal_ci ''lodd bilde'' s of
        None \<Rightarrow> None
      | Some s1 \<Rightarrow>
          (case s1 of
             [] \<Rightarrow> None
           | w # s2 \<Rightarrow>
               if is_space w then
                 (case dropWhile is_space s2 of
                    [] \<Rightarrow> None
                  | c # _ \<Rightarrow> if is_letter c then Some [c] else None)
               else None))"

fun bilde_search_spec :: "string \<Rightarrow> string option" where
  "bilde_search_spec [] = bilde_match_at_spec []"
| "bilde_search_spec (c # cs) =
     (case bilde_match_at_spec (c # cs) of
        Some g \<Rightarrow> Some g
      | None \<Rightarrow> bilde_search_spec cs)"

definition extract_bilde_spec :: "string \<Rightarrow> string option" where
  "extract_bilde_spec salgssted =
     (case bilde_search_spec salgssted of
        Some g \<Rightarrow> Some (upper g)
      | None \<Rightarrow> None)"

text \<open>
  The exact-multiple test as the specification words it: a remainder within \<open>1e-6\<close> of
  zero or of the unit price counts as an exact multiple.
\<close>

definition is_non_multiple_eps :: "settings \<Rightarrow> agg_row \<Rightarrow> bool" where
  "is_non_multiple_eps st e =
     (let r = py_mod (agg_Brutto e) (of_int (loddpris st))
      in \<not> (\<bar>r\<bar> < 1 / 1000000 \<or> \<bar>r - of_int (loddpris st)\<bar> < 1 / 1000000))"

subsection \<open>Example inputs\<close>

definition example_settings :: settings where
  "example_settings = \<lparr>loddpris = 20, navnformat = Fullt_navn, round_down = True\<rparr>"

definition nearest_settings :: settings where
  "nearest_settings = \<lparr>loddpris = 20, navnformat = Fullt_navn, round_down = False\<rparr>"

definition lodd_row_of :: "string \<Rightarrow> string \<Rightarrow> rat \<Rightarrow> lodd_row" where
  "lodd_row_of b n x =
     \<lparr>Salgssted = ''Lodd bilde '' @ b, Transaksjonstype = ''Salg'', Brutto = x,
      Fornavn = n, Etternavn = '''', Melding = '''', Bilde = b, Navn = n\<rparr>"

definition name_row :: "string \<Rightarrow> string \<Rightarrow> string \<Rightarrow> vipps_row" where
  "name_row f e m =
     \<lparr>Salgssted = ''Lodd bilde A'', Transaksjonstype = ''Salg'', Brutto = 20,
      Fornavn = f, Etternavn = e, Melding = m\<rparr>"

definition sale_row :: "string \<Rightarrow> string \<Rightarrow> rat \<Rightarrow> vipps_row" where
  "sale_row s n x =
     \<lparr>Salgssted = s, Transaksjonstype = ''Salg'', Brutto = x,
      Fornavn = n, Etternavn = '''', Melding = ''''\<rparr>"

definition floor_rows :: "lodd_row list" where
  "floor_rows =
     [lodd_row_of ''A'' ''Anna'' 15, lodd_row_of ''B'' ''Ola'' 45, lodd_row_of ''A'' ''Anna'' 15]"

definition nearest_rows :: "lodd_row list" where
  "nearest_rows =
     [lodd_row_of ''A'' ''Anna'' 50, lodd_row_of ''A'' ''Ola'' 70,
      lodd_row_of ''A'' ''Kari'' 45, lodd_row_of ''A'' ''Per'' 55]"

text \<open>The float64 values nearest to 32.05, 7.95 and 12.05.\<close>

definition f64_32_05 :: rat where
  "f64_32_05 = 2255318250894131 / 70368744177664"

definition f64_7_95 :: rat where
  "f64_7_95 = 8950904259398861 / 1125899906842624"

definition f64_12_05 :: rat where
  "f64_12_05 = 3391773469363405 / 281474976710656"

definition nm_rows :: "lodd_row list" where
  "nm_rows = [lodd_row_of ''A'' ''Anna'' 45, lodd_row_of ''A'' ''Ola'' 40]"

text \<open>
  A total of 20.0000001 at ticket price 20, total and raw ticket count being the float64
  values nearest to 20.0000001 and 1.000000005: the remainder is \<open>1.0000000116860974e-07\<close>.
\<close>

definition tiny_excess :: agg_row where
  "tiny_excess =
     \<lparr>agg_Bilde = ''A'', agg_Navn = ''Anna'',
      agg_Brutto = 2814749781180309 / 140737488355328,
      Lodd_raw = 2251799824944247 / 2251799813685248, Lodd = 1\<rparr>"

text \<open>A sheet with three lines of metadata, a cell "Salgsstedet" at row 3 and the header at row 5.\<close>

definition example_grid :: raw_grid where
  "example_grid =
     [[''Vipps rapport'', ''nan'', ''nan''],
      [''nan'', ''nan'', ''nan''],
      [''Periode'', ''2026'', ''nan''],
      [''Info'', ''Salgsstedet'', ''nan''],
      [''nan'', ''nan'', ''nan''],
      [''Salgsdato'', ''Salgssted'', ''Brutto''],
      [''01.02.2026'', ''Lodd bilde A'', ''20'']]"

definition table_without_columns :: vipps_table where
  "table_without_columns =
     \<lparr>columns = [''Salgsdato'', ''Brutto'', ''Fornavn''],
      rows = [sale_row ''Lodd bilde A'' ''Anna'' 20]\<rparr>"

definition table_with_columns :: vipps_table where
  "table_with_columns =
     \<lparr>columns = [''Salgsdato'', ''Salgssted'', ''Transaksjonstype'', ''Brutto'', ''Fornavn''],
      rows = [sale_row ''Lodd bilde A'' ''Anna'' 20, sale_row ''Lodd bilde A'' ''Anna'' 25]\<rparr>"

definition tagger_rows :: "vipps_row list" where
  "tagger_rows =
     [sale_row ''Lodd bilde b'' ''Anna'' 20,
      sale_row ''Lodd bilde 1'' ''Ola'' 20,
      sale_row ''LODD BILDE B'' ''Kari'' 40]"

definition wheel_rows :: "lodd_row list" where
  "wheel_rows =
     [lodd_row_of ''A'' ''Kari'' 40, lodd_row_of ''A'' ''Ola'' 20, lodd_row_of ''A'' ''Anna'' 45,
      lodd_row_of ''A'' ''Zed'' (- 20), lodd_row_of ''A'' ''Ola'' 40, lodd_row_of ''A'' ''Ada'' (- 40),
      lodd_row_of ''B'' ''Anna'' 20]"


section \<open>Properties\<close>

subsection \<open>float64 arithmetic\<close>

lemma round_half_even_of_int: "round_half_even (of_int z) = z"
  by (simp add: round_half_even_def)

lemma round_half_even_cases:
  obtains (down) "x - of_int \<lfloor>x\<rfloor> < 1 / 2" "round_half_even x = \<lfloor>x\<rfloor>"
  | (up) "1 / 2 < x - of_int \<lfloor>x\<rfloor>" "round_half_even x = \<lfloor>x\<rfloor> + 1"
  | (tie_even) "x - of_int \<lfloor>x\<rfloor> = 1 / 2" "even \<lfloor>x\<rfloor>" "round_half_even x = \<lfloor>x\<rfloor>"
  | (tie_odd) "x - of_int \<lfloor>x\<rfloor> = 1 / 2" "odd \<lfloor>x\<rfloor>" "round_half_even x = \<lfloor>x\<rfloor> + 1"
proof -
  consider "x - of_int \<lfloor>x\<rfloor> < 1 / 2" | "1 / 2 < x - of_int \<lfloor>x\<rfloor>"
    | "x - of_int \<lfloor>x\<rfloor> = 1 / 2" "even \<lfloor>x\<rfloor>" | "x - of_int \<lfloor>x\<rfloor> = 1 / 2" "odd \<lfloor>x\<rfloor>"
    by fastforce
  then show ?thesis
  proof cases
    case 1
    then show ?thesis by (intro down) (simp_all add: round_half_even_def Let_def)
  next
    case 2
    then show ?thesis by (intro up) (simp_all add: round_half_even_def Let_def)
  next
    case 3
    then show ?thesis by (intro tie_even) (simp_all add: round_half_even_def Let_def)
  next
    case 4
    then show ?thesis by (intro tie_odd) (simp_all add: round_half_even_def Let_def)
  qed
qed

lemma round_half_even_near: "\<bar>of_int (round_half_even x) - x\<bar> \<le> 1 / 2"
proof -
  have b: "of_int \<lfloor>x\<rfloor> \<le> x" "x < of_int \<lfloor>x\<rfloor> + 1" by linarith+
  show ?thesis
    by (cases x rule: round_half_even_cases) (use b in \<open>simp_all add: abs_le_iff\<close>)
qed

lemma pow2_less_cancel: "(2::rat) powi a < 2 powi b \<Longrightarrow> a < b"
proof (rule ccontr)
  assume l: "(2::rat) powi a < 2 powi b" and "\<not> a < b"
  then have "b \<le> a" by simp
  then have "(2::rat) powi b \<le> 2 powi a" by (intro power_int_increasing) simp_all
  with l show False by simp
qed

lemma pow2_nat: "0 \<le> k \<Longrightarrow> (2::rat) powi k = 2 ^ nat k"
  by (simp add: power_int_def)

lemma bitlen_bounds_rat:
  assumes "0 < n"
  shows "(2::rat) powi (bitlen n - 1) \<le> of_int n" and "of_int n < (2::rat) powi bitlen n"
proof -
  from assms have b1: "1 \<le> bitlen n" by (auto simp: bitlen_alt_def)
  from bitlen_bounds [OF assms] have lo: "2 ^ nat (bitlen n - 1) \<le> n" and hi: "n < 2 ^ nat (bitlen n)"
    by simp_all
  from lo have "(of_int (2 ^ nat (bitlen n - 1)) :: rat) \<le> of_int n" by (simp only: of_int_le_iff)
  then show "(2::rat) powi (bitlen n - 1) \<le> of_int n" using b1 by (simp add: pow2_nat)
  from hi have "(of_int n :: rat) < of_int (2 ^ nat (bitlen n))" by (simp only: of_int_less_iff)
  then show "of_int n < (2::rat) powi bitlen n" using b1 by (simp add: pow2_nat)
qed

text \<open>\<open>binade\<close> is the exponent of the power of two at or below a positive value.\<close>

lemma binade_bounds:
  assumes "0 < x"
  shows "2 powi binade x \<le> x" and "x < 2 powi (binade x + 1)"
proof -
  obtain n d where q: "quotient_of x = (n, d)" by (cases "quotient_of x")
  then have d: "0 < d" by (rule quotient_of_denom_pos)
  from q have x: "x = of_int n / of_int d" by (rule quotient_of_div)
  with assms d have n: "0 < n" by (simp add: zero_less_divide_iff)
  define k where "k = bitlen n - bitlen d"
  note bn = bitlen_bounds_rat [OF n] and bd = bitlen_bounds_rat [OF d]
  have pos: "\<And>j. (0::rat) < 2 powi j" by simp
  have l1: "2 powi (bitlen n - 1) / 2 powi bitlen d < x"
    unfolding x using bn(1) bd(2) d pos by (intro frac_less2) simp_all
  have "(2::rat) powi ((bitlen n - 1) - bitlen d) = 2 powi (bitlen n - 1) / 2 powi bitlen d"
    by (rule power_int_diff) simp
  moreover have "(bitlen n - 1) - bitlen d = k - 1" by (simp add: k_def)
  ultimately have l2: "(2::rat) powi (k - 1) = 2 powi (bitlen n - 1) / 2 powi bitlen d"
    by simp
  from l1 have lo: "2 powi (k - 1) < x" by (simp only: l2)
  have h1: "x < 2 powi bitlen n / 2 powi (bitlen d - 1)"
    unfolding x using bn(2) bd(1) n pos by (intro frac_less) simp_all
  have "(2::rat) powi (bitlen n - (bitlen d - 1)) = 2 powi bitlen n / 2 powi (bitlen d - 1)"
    by (rule power_int_diff) simp
  moreover have "bitlen n - (bitlen d - 1) = k + 1" by (simp add: k_def)
  ultimately have h2: "(2::rat) powi (k + 1) = 2 powi bitlen n / 2 powi (bitlen d - 1)"
    by simp
  from h1 have hi: "x < 2 powi (k + 1)" by (simp only: h2)
  have b: "binade x = (if 2 powi k \<le> x then k else k - 1)"
    by (simp add: binade_def q k_def Let_def)
  show "2 powi binade x \<le> x" using lo by (simp add: b)
  show "x < 2 powi (binade x + 1)" using hi by (auto simp: b not_le)
qed

lemma fl64_zero: "fl64 0 = 0"
  by (simp add: fl64_def)

text \<open>A value with a significand of at most 53 bits is not changed by the rounding.\<close>

lemma fl64_exact:
  assumes x: "x = of_int m * 2 powi e" and m: "\<bar>m\<bar> < 2 ^ 53"
  shows "fl64 x = x"
proof (cases "x = 0")
  case True
  then show ?thesis by (simp add: fl64_def)
next
  case False
  with x have m0: "m \<noteq> 0" by auto
  have ax: "\<bar>x\<bar> = of_int \<bar>m\<bar> * 2 powi e" by (simp add: x abs_mult)
  then have pos: "0 < \<bar>x\<bar>" using False by simp
  define E where "E = binade \<bar>x\<bar> - 52"
  have "of_int \<bar>m\<bar> < (2::rat) ^ 53" using m by (metis of_int_less_iff of_int_numeral of_int_power)
  then have "\<bar>x\<bar> < 2 ^ 53 * 2 powi e" unfolding ax by (intro mult_strict_right_mono) simp_all
  also have "\<dots> = 2 powi (53 + e)" by (simp add: power_int_add)
  finally have "2 powi binade \<bar>x\<bar> < (2::rat) powi (53 + e)"
    using binade_bounds(1) [OF pos] by simp
  then have "binade \<bar>x\<bar> < 53 + e" by (rule pow2_less_cancel)
  then have Ee: "E \<le> e" by (simp add: E_def)
  have "2 powi e = (2::rat) powi (e - E) * 2 powi E" by (simp flip: power_int_add)
  also have "(2::rat) powi (e - E) = 2 ^ nat (e - E)" using Ee by (simp add: pow2_nat)
  finally have pe: "(2::rat) powi e = 2 ^ nat (e - E) * 2 powi E" .
  have "\<bar>x\<bar> / 2 powi E = of_int (\<bar>m\<bar> * 2 ^ nat (e - E))"
    by (simp add: ax pe)
  then have r: "round_half_even (\<bar>x\<bar> / 2 powi E) = \<bar>m\<bar> * 2 ^ nat (e - E)"
    by (simp only: round_half_even_of_int)
  have "fl64 x = sgn x * of_int (\<bar>m\<bar> * 2 ^ nat (e - E)) * 2 powi E"
    using False by (simp add: fl64_def Let_def E_def [symmetric] r)
  also have "\<dots> = sgn x * (of_int \<bar>m\<bar> * 2 powi e)" by (simp add: pe)
  also have "\<dots> = sgn x * \<bar>x\<bar>" by (simp only: ax)
  also have "\<dots> = x" by (simp add: sgn_mult_abs)
  finally show ?thesis .
qed

lemma is_f64_exact:
  assumes "is_f64 x"
  shows "fl64 x = x"
proof -
  obtain n d where q: "quotient_of x = (n, d)" by (cases "quotient_of x")
  then have d: "0 < d" by (rule quotient_of_denom_pos)
  from q have x: "x = of_int n / of_int d" by (rule quotient_of_div)
  from assms q have n: "\<bar>n\<bar> < 2 ^ 53" and dp: "d = 2 ^ nat (bitlen d - 1)"
    by (simp_all add: is_f64_def)
  from d have "1 \<le> bitlen d" by (auto simp: bitlen_alt_def)
  then have "(of_int d :: rat) = 2 powi (bitlen d - 1)"
    using dp by (metis of_int_numeral of_int_power pow2_nat diff_ge_0_iff_ge)
  then have "x = of_int n * inverse (2 powi (bitlen d - 1))"
    by (simp add: x divide_inverse)
  then have "x = of_int n * 2 powi (- (bitlen d - 1))"
    by (simp only: power_int_minus)
  then show ?thesis using n by (rule fl64_exact)
qed

text \<open>The result of the rounding has a significand of at most 53 bits.\<close>

lemma fl64_representable:
  "\<exists>m e. fl64 x = of_int m * 2 powi e \<and> \<bar>m\<bar> < 2 ^ 53"
proof (cases "x = 0")
  case True
  then have "fl64 x = of_int 0 * 2 powi 0 \<and> \<bar>0::int\<bar> < 2 ^ 53" by (simp add: fl64_def)
  then show ?thesis by blast
next
  case False
  then have pos: "0 < \<bar>x\<bar>" by simp
  define E where "E = binade \<bar>x\<bar> - 52"
  define y where "y = \<bar>x\<bar> / 2 powi E"
  define r where "r = round_half_even y"
  have p: "(0::rat) < 2 powi E" by simp
  have "2 powi (E + 52) \<le> \<bar>x\<bar>" using binade_bounds(1) [OF pos] by (simp add: E_def)
  then have "2 ^ 52 * 2 powi E \<le> \<bar>x\<bar>" by (simp add: power_int_add)
  then have ylo: "2 ^ 52 \<le> y" using p by (simp add: y_def pos_le_divide_eq)
  have "E + 53 = binade \<bar>x\<bar> + 1" by (simp add: E_def)
  then have "\<bar>x\<bar> < 2 powi (E + 53)" using binade_bounds(2) [OF pos] by (simp only:)
  then have "\<bar>x\<bar> < 2 ^ 53 * 2 powi E" by (simp add: power_int_add)
  then have yhi: "y < 2 ^ 53" using p by (simp add: y_def pos_divide_less_eq)
  have near: "\<bar>of_int r - y\<bar> \<le> 1 / 2" unfolding r_def by (rule round_half_even_near)
  have "(of_int r :: rat) < 2 ^ 53 + 1" using near yhi by linarith
  then have "(of_int r :: rat) < of_int (2 ^ 53 + 1)" by simp
  then have "r < 2 ^ 53 + 1" by (simp only: of_int_less_iff)
  then have rhi: "r \<le> 2 ^ 53" by simp
  have "(2 ^ 52 - 1 :: rat) < of_int r" using near ylo by linarith
  then have "(of_int (2 ^ 52 - 1) :: rat) < of_int r" by simp
  then have "2 ^ 52 - 1 < r" by (simp only: of_int_less_iff)
  then have rlo: "2 ^ 52 \<le> r" by simp
  have f: "fl64 x = sgn x * of_int r * 2 powi E"
    using False by (simp add: fl64_def Let_def E_def [symmetric] y_def [symmetric] r_def)
  define s :: int where "s = (if 0 < x then 1 else - 1)"
  have sx: "sgn x = of_int s" using False by (simp add: s_def sgn_if)
  have s1: "\<bar>s\<bar> = 1" by (simp add: s_def)
  show ?thesis
  proof (cases "r = 2 ^ 53")
    case True
    have "fl64 x = of_int (s * 2 ^ 52) * 2 powi (E + 1)"
      by (simp add: f sx True power_int_add)
    moreover have "\<bar>s * 2 ^ 52\<bar> < (2::int) ^ 53" using s1 by (simp add: abs_mult)
    ultimately show ?thesis by blast
  next
    case False
    with rhi have "r < 2 ^ 53" by simp
    with rlo s1 have "\<bar>s * r\<bar> < 2 ^ 53" by (simp add: abs_mult)
    moreover have "fl64 x = of_int (s * r) * 2 powi E" by (simp add: f sx)
    ultimately show ?thesis by blast
  qed
qed

lemma fl64_idem: "fl64 (fl64 x) = fl64 x"
proof -
  obtain m e where "fl64 x = of_int m * 2 powi e" "\<bar>m\<bar> < 2 ^ 53"
    using fl64_representable by blast
  then show ?thesis by (rule fl64_exact)
qed

text \<open>For evaluation: a float64 value is returned as it is.\<close>

lemma fl64_code [code]:
  "fl64 x =
     (if is_f64 x then x
      else if x = 0 then 0
      else (let e = binade \<bar>x\<bar> - 52
            in sgn x * of_int (round_half_even (\<bar>x\<bar> / 2 powi e)) * 2 powi e))"
proof (cases "is_f64 x")
  case True
  then show ?thesis by (simp add: is_f64_exact)
next
  case False
  then show ?thesis by (simp add: fl64_def)
qed

text \<open>
  The compensated sum of one float64 is that value, and of two it is their float64 sum:
  the compensation term only enters from the third value on.
\<close>

lemma kahan_step_first: "kahan_step (0, 0) (fl64 x) = (fl64 x, 0)"
  by (simp add: kahan_step_def Let_def f64_sub_def f64_add_def fl64_idem fl64_zero)

lemma kahan_sum_single: "kahan_sum [fl64 x] = fl64 x"
  by (simp add: kahan_sum_def kahan_step_first)

lemma kahan_sum_pair: "kahan_sum [fl64 x, fl64 y] = f64_add (fl64 x) (fl64 y)"
  by (simp add: kahan_sum_def kahan_step_first)
     (simp add: kahan_step_def Let_def f64_sub_def f64_add_def fl64_idem)

subsection \<open>Grouping\<close>

lemma group_keys_distinct: "distinct (group_keys rs)"
  by (simp add: group_keys_def)

lemma group_keys_set: "set (group_keys rs) = group_key ` set rs"
  by (simp add: group_keys_def)

lemma filter_eq_distinct: "distinct xs \<Longrightarrow> x \<in> set xs \<Longrightarrow> filter (\<lambda>y. y = x) xs = [x]"
proof (induction xs)
  case Nil
  then show ?case by simp
next
  case (Cons a xs)
  show ?case
  proof (cases "a = x")
    case True
    with Cons.prems have "x \<notin> set xs" by simp
    then have "filter (\<lambda>y. y = x) xs = []" by (auto simp: filter_empty_conv)
    with True show ?thesis by simp
  next
    case False
    with Cons show ?thesis by simp
  qed
qed

lemma agg_entry_key: "(agg_Bilde (agg_entry st rs k), agg_Navn (agg_entry st rs k)) = k"
  by (simp add: agg_entry_def Let_def)

lemma aggregate_filter_key:
  "filter (\<lambda>e. (agg_Bilde e, agg_Navn e) = k) (aggregate st rs)
     = map (agg_entry st rs) (filter (\<lambda>k'. k' = k) (group_keys rs))"
  by (simp add: aggregate_def filter_map o_def agg_entry_key)

lemma aggregate_entry_for_key:
  assumes "k \<in> group_key ` set rs"
  shows "filter (\<lambda>e. (agg_Bilde e, agg_Navn e) = k) (aggregate st rs) = [agg_entry st rs k]"
  using assms
  by (simp add: aggregate_filter_key filter_eq_distinct group_keys_distinct group_keys_set)

lemma aggregate_mem:
  "e \<in> set (aggregate st rs) \<Longrightarrow> \<exists>k \<in> group_key ` set rs. e = agg_entry st rs k"
  by (auto simp: aggregate_def group_keys_set)

lemma Lodd_floor:
  "round_down st \<Longrightarrow> e \<in> set (aggregate st rs) \<Longrightarrow> Lodd e = \<lfloor>Lodd_raw e\<rfloor>"
  by (auto simp: aggregate_def agg_entry_def Let_def lodd_of_def)

lemma Lodd_nearest:
  "\<not> round_down st \<Longrightarrow> e \<in> set (aggregate st rs) \<Longrightarrow> Lodd e = round_half_even (Lodd_raw e)"
  by (auto simp: aggregate_def agg_entry_def Let_def lodd_of_def)

lemma agg_entry_floor:
  assumes "round_down st"
  shows "agg_entry st rs k
           = \<lparr>agg_Bilde = fst k, agg_Navn = snd k,
              agg_Brutto = kahan_sum (map (\<lambda>r. fl64 (Brutto r)) (filter (\<lambda>r. group_key r = k) rs)),
              Lodd_raw = f64_div (kahan_sum (map (\<lambda>r. fl64 (Brutto r))
                                                (filter (\<lambda>r. group_key r = k) rs)))
                                 (of_int (loddpris st)),
              Lodd = \<lfloor>f64_div (kahan_sum (map (\<lambda>r. fl64 (Brutto r))
                                             (filter (\<lambda>r. group_key r = k) rs)))
                              (of_int (loddpris st))\<rfloor>\<rparr>"
  using assms by (simp add: agg_entry_def group_sum_def Let_def lodd_of_def)

lemma aggregate_pair_floor:
  assumes "round_down st" and "group_key r1 = group_key r2"
  shows "map Lodd (aggregate st [r1, r2])
           = [\<lfloor>f64_div (f64_add (fl64 (Brutto r1)) (fl64 (Brutto r2))) (of_int (loddpris st))\<rfloor>]"
proof -
  from assms(2) have "group_keys [r1, r2] = [group_key r2]"
    by (simp add: group_keys_def)
  then have "map Lodd (aggregate st [r1, r2])
               = [\<lfloor>f64_div (kahan_sum [fl64 (Brutto r1), fl64 (Brutto r2)])
                            (of_int (loddpris st))\<rfloor>]"
    using assms by (simp add: aggregate_def agg_entry_floor)
  then show ?thesis by (simp only: kahan_sum_pair)
qed

text \<open>
  C1. Rows with the same (Bilde, Navn) are merged before rounding: with the floor policy
  the aggregate has exactly one entry for a key that occurs in the rows, its Brutto is
  the float64 sum over all rows of that key and its Lodd is the floor of the float64
  quotient of that sum by the ticket price. For two rows with the same key and amounts
  X and Y the ticket count is the floor of the float64 quotient of the float64 sum of
  X and Y by the ticket price. It is floor((X + Y) / loddpris) in exact arithmetic when
  X, Y, their sum and the quotient are float64 values.
\<close>

theorem merge_before_rounding:
  assumes "0 < loddpris st" and "round_down st"
  shows "(k \<in> group_key ` set rs \<longrightarrow>
            filter (\<lambda>e. (agg_Bilde e, agg_Navn e) = k) (aggregate st rs)
              = [\<lparr>agg_Bilde = fst k, agg_Navn = snd k,
                  agg_Brutto = kahan_sum (map (\<lambda>r. fl64 (Brutto r))
                                              (filter (\<lambda>r. group_key r = k) rs)),
                  Lodd_raw = f64_div (kahan_sum (map (\<lambda>r. fl64 (Brutto r))
                                                    (filter (\<lambda>r. group_key r = k) rs)))
                                     (of_int (loddpris st)),
                  Lodd = \<lfloor>f64_div (kahan_sum (map (\<lambda>r. fl64 (Brutto r))
                                                 (filter (\<lambda>r. group_key r = k) rs)))
                                  (of_int (loddpris st))\<rfloor>\<rparr>])
       \<and> (group_key r1 = group_key r2 \<longrightarrow>
            map Lodd (aggregate st [r1, r2])
              = [\<lfloor>f64_div (f64_add (fl64 (Brutto r1)) (fl64 (Brutto r2)))
                           (of_int (loddpris st))\<rfloor>])
       \<and> (group_key r1 = group_key r2
            \<and> fl64 (Brutto r1) = Brutto r1 \<and> fl64 (Brutto r2) = Brutto r2
            \<and> fl64 (Brutto r1 + Brutto r2) = Brutto r1 + Brutto r2
            \<and> fl64 ((Brutto r1 + Brutto r2) / of_int (loddpris st))
                = (Brutto r1 + Brutto r2) / of_int (loddpris st) \<longrightarrow>
            map Lodd (aggregate st [r1, r2])
              = [\<lfloor>(Brutto r1 + Brutto r2) / of_int (loddpris st)\<rfloor>])"
proof (intro conjI impI)
  assume k: "k \<in> group_key ` set rs"
  show "filter (\<lambda>e. (agg_Bilde e, agg_Navn e) = k) (aggregate st rs)
              = [\<lparr>agg_Bilde = fst k, agg_Navn = snd k,
                  agg_Brutto = kahan_sum (map (\<lambda>r. fl64 (Brutto r))
                                              (filter (\<lambda>r. group_key r = k) rs)),
                  Lodd_raw = f64_div (kahan_sum (map (\<lambda>r. fl64 (Brutto r))
                                                    (filter (\<lambda>r. group_key r = k) rs)))
                                     (of_int (loddpris st)),
                  Lodd = \<lfloor>f64_div (kahan_sum (map (\<lambda>r. fl64 (Brutto r))
                                                 (filter (\<lambda>r. group_key r = k) rs)))
                                  (of_int (loddpris st))\<rfloor>\<rparr>]"
    by (simp only: aggregate_entry_for_key [OF k] agg_entry_floor [OF assms(2)])
next
  assume same: "group_key r1 = group_key r2"
  show "map Lodd (aggregate st [r1, r2])
          = [\<lfloor>f64_div (f64_add (fl64 (Brutto r1)) (fl64 (Brutto r2)))
                       (of_int (loddpris st))\<rfloor>]"
    by (rule aggregate_pair_floor [OF assms(2) same])
next
  assume a: "group_key r1 = group_key r2
            \<and> fl64 (Brutto r1) = Brutto r1 \<and> fl64 (Brutto r2) = Brutto r2
            \<and> fl64 (Brutto r1 + Brutto r2) = Brutto r1 + Brutto r2
            \<and> fl64 ((Brutto r1 + Brutto r2) / of_int (loddpris st))
                = (Brutto r1 + Brutto r2) / of_int (loddpris st)"
  then have same: "group_key r1 = group_key r2" by simp
  from a have "f64_div (f64_add (fl64 (Brutto r1)) (fl64 (Brutto r2))) (of_int (loddpris st))
                 = (Brutto r1 + Brutto r2) / of_int (loddpris st)"
    by (simp add: f64_div_def f64_add_def)
  then show "map Lodd (aggregate st [r1, r2])
               = [\<lfloor>(Brutto r1 + Brutto r2) / of_int (loddpris st)\<rfloor>]"
    by (simp only: aggregate_pair_floor [OF assms(2) same])
qed

lemma small_amounts_f64:
  "fl64 15 = 15" "fl64 (15 + 15) = 15 + 15" "fl64 ((15 + 15) / 20) = (15 + 15) / 20"
  "f64_div 15 20 = 3 / 4"
  by code_simp+

text \<open>
  Ticket price 20 and two payments of 15 by the same buyer for the same artwork: one
  ticket, where rounding each payment first would give none.
\<close>

theorem merge_before_rounding_witness:
  "0 < loddpris example_settings \<and> round_down example_settings
   \<and> group_key (lodd_row_of ''A'' ''Anna'' 15) = group_key (lodd_row_of ''A'' ''Anna'' 15)
   \<and> fl64 15 = 15 \<and> fl64 (15 + 15) = 15 + 15 \<and> fl64 ((15 + 15) / 20) = (15 + 15) / 20
   \<and> map Lodd (aggregate example_settings
                  [lodd_row_of ''A'' ''Anna'' 15, lodd_row_of ''A'' ''Anna'' 15]) = [1]
   \<and> \<lfloor>f64_div 15 20\<rfloor> + \<lfloor>f64_div 15 20\<rfloor> = 0"
proof -
  let ?r = "lodd_row_of ''A'' ''Anna'' 15"
  have p: "0 < loddpris example_settings" and rd: "round_down example_settings"
    by (simp_all add: example_settings_def)
  have b: "Brutto ?r = 15" and pr: "loddpris example_settings = 20"
    by (simp_all add: lodd_row_of_def example_settings_def)
  have f1: "\<lfloor>(15 + 15 :: rat) / of_int 20\<rfloor> = 1" by (simp add: floor_eq_iff)
  have "\<lfloor>(3 :: rat) / 4\<rfloor> = 0" by (simp add: floor_eq_iff)
  then have f0: "\<lfloor>f64_div 15 20\<rfloor> + \<lfloor>f64_div 15 20\<rfloor> = 0"
    by (simp add: small_amounts_f64)
  have hyp: "group_key ?r = group_key ?r
            \<and> fl64 (Brutto ?r) = Brutto ?r \<and> fl64 (Brutto ?r) = Brutto ?r
            \<and> fl64 (Brutto ?r + Brutto ?r) = Brutto ?r + Brutto ?r
            \<and> fl64 ((Brutto ?r + Brutto ?r) / of_int (loddpris example_settings))
                = (Brutto ?r + Brutto ?r) / of_int (loddpris example_settings)"
    unfolding b pr using small_amounts_f64 by simp
  from merge_before_rounding [OF p rd, of "(''A'', ''Anna'')" "[]" ?r ?r] hyp
  have "map Lodd (aggregate example_settings [?r, ?r])
         = [\<lfloor>(Brutto ?r + Brutto ?r) / of_int (loddpris example_settings)\<rfloor>]"
    by blast
  then have res: "map Lodd (aggregate example_settings [?r, ?r]) = [1]"
    unfolding b pr using f1 by simp
  from p rd small_amounts_f64(1,2,3) res f0 show ?thesis by (simp only: simp_thms)
qed

lemma f64_amounts:
  "fl64 (641 / 20) = f64_32_05" "fl64 (159 / 20) = f64_7_95"
  "fl64 (- (241 / 20)) = - f64_12_05"
  "fl64 (f64_32_05 + f64_7_95) = 40"
  "fl64 (f64_32_05 + - f64_12_05) = 5629499534213119 / 281474976710656"
  "fl64 (5629499534213119 / 281474976710656 / 20) = 4503599627370495 / 4503599627370496"
  unfolding f64_32_05_def f64_7_95_def f64_12_05_def by code_simp+

text \<open>
  The exact formula floor((X + Y) / loddpris) is not what the aggregator computes, at
  ticket price 20:

  \<^item> X and Y the float64 values nearest to 32.05 and 7.95. Their exact sum is below 40,
    so the formula gives 1; the float64 sum rounds to 40.0 and the buyer gets 2
    tickets.
  \<^item> X = 32.05 and a refund Y = -12.05, as decimal amounts. Their sum is 20 and the
    formula gives 1; the float64 sum is 19.999999999999996, the quotient is
    0.9999999999999998 and the buyer gets no ticket.
\<close>

theorem float_sum_counterexample:
  "round_down example_settings \<and> loddpris example_settings = 20
   \<and> fl64 (641 / 20) = f64_32_05 \<and> fl64 (159 / 20) = f64_7_95
   \<and> map Lodd (aggregate example_settings
                  [lodd_row_of ''A'' ''Anna'' f64_32_05, lodd_row_of ''A'' ''Anna'' f64_7_95])
        = [2]
   \<and> \<lfloor>(f64_32_05 + f64_7_95) / 20\<rfloor> = 1
   \<and> map Lodd (aggregate example_settings
                  [lodd_row_of ''A'' ''Anna'' (641 / 20), lodd_row_of ''A'' ''Anna'' (- (241 / 20))])
        = [0]
   \<and> \<lfloor>(641 / 20 + - (241 / 20)) / 20 :: rat\<rfloor> = 1"
proof -
  have rd: "round_down example_settings" and pr: "loddpris example_settings = 20"
    by (simp_all add: example_settings_def)
  have k: "group_key (lodd_row_of ''A'' ''Anna'' x) = group_key (lodd_row_of ''A'' ''Anna'' y)"
    for x y by (simp add: group_key_def lodd_row_of_def)
  have b: "Brutto (lodd_row_of ''A'' ''Anna'' x) = x" for x
    by (simp add: lodd_row_of_def)
  have idem: "fl64 f64_32_05 = f64_32_05" "fl64 f64_7_95 = f64_7_95"
    using fl64_idem [of "641 / 20"] fl64_idem [of "159 / 20"] by (simp_all only: f64_amounts)
  have "map Lodd (aggregate example_settings
                  [lodd_row_of ''A'' ''Anna'' f64_32_05, lodd_row_of ''A'' ''Anna'' f64_7_95])
          = [\<lfloor>fl64 (fl64 (f64_32_05 + f64_7_95) / 20)\<rfloor>]"
    by (simp add: aggregate_pair_floor [OF rd k] b pr f64_div_def f64_add_def idem)
  also have "fl64 (fl64 (f64_32_05 + f64_7_95) / 20) = 2"
    unfolding f64_amounts by code_simp
  finally have c1: "map Lodd (aggregate example_settings
                  [lodd_row_of ''A'' ''Anna'' f64_32_05, lodd_row_of ''A'' ''Anna'' f64_7_95])
          = [2]" by simp
  have e1: "\<lfloor>(f64_32_05 + f64_7_95) / 20\<rfloor> = 1"
    by (simp add: f64_32_05_def f64_7_95_def floor_eq_iff)
  have "map Lodd (aggregate example_settings
                  [lodd_row_of ''A'' ''Anna'' (641 / 20), lodd_row_of ''A'' ''Anna'' (- (241 / 20))])
          = [\<lfloor>fl64 (fl64 (f64_32_05 + - f64_12_05) / 20)\<rfloor>]"
    by (simp add: aggregate_pair_floor [OF rd k] b pr f64_div_def f64_add_def f64_amounts)
  also have "fl64 (fl64 (f64_32_05 + - f64_12_05) / 20) = 4503599627370495 / 4503599627370496"
    by (simp only: f64_amounts)
  also have "\<lfloor>4503599627370495 / 4503599627370496 :: rat\<rfloor> = 0"
    by (simp add: floor_eq_iff)
  finally have c2: "map Lodd (aggregate example_settings
                  [lodd_row_of ''A'' ''Anna'' (641 / 20), lodd_row_of ''A'' ''Anna'' (- (241 / 20))])
          = [0]" .
  have e2: "\<lfloor>(641 / 20 + - (241 / 20)) / 20 :: rat\<rfloor> = 1"
    by (simp add: floor_eq_iff)
  from rd pr f64_amounts(1,2) c1 e1 c2 e2 show ?thesis by (simp only: simp_thms)
qed

text \<open>
  C8. With the floor policy and a positive ticket price, the ticket counts of all
  (Bilde, Navn) groups sum to at most the sum of the raw ticket counts, and in each
  group the raw count exceeds the ticket count by less than 1.
\<close>

theorem floor_policy_bounds:
  assumes "0 < loddpris st" and "round_down st"
  shows "(\<Sum>e\<leftarrow>aggregate st rs. of_int (Lodd e)) \<le> (\<Sum>e\<leftarrow>aggregate st rs. Lodd_raw e)
         \<and> (\<forall>e \<in> set (aggregate st rs).
               of_int (Lodd e) \<le> Lodd_raw e \<and> Lodd_raw e - of_int (Lodd e) < 1)"
proof
  show "(\<Sum>e\<leftarrow>aggregate st rs. of_int (Lodd e)) \<le> (\<Sum>e\<leftarrow>aggregate st rs. Lodd_raw e)"
    by (rule sum_list_mono) (simp add: Lodd_floor [OF assms(2)])
  show "\<forall>e \<in> set (aggregate st rs).
          of_int (Lodd e) \<le> Lodd_raw e \<and> Lodd_raw e - of_int (Lodd e) < 1"
  proof
    fix e assume "e \<in> set (aggregate st rs)"
    then have "Lodd e = \<lfloor>Lodd_raw e\<rfloor>" by (rule Lodd_floor [OF assms(2)])
    then show "of_int (Lodd e) \<le> Lodd_raw e \<and> Lodd_raw e - of_int (Lodd e) < 1"
      by simp linarith
  qed
qed

lemma floor_rows_agg:
  "aggregate example_settings floor_rows
     = [\<lparr>agg_Bilde = ''A'', agg_Navn = ''Anna'', agg_Brutto = 30, Lodd_raw = 3 / 2, Lodd = 1\<rparr>,
        \<lparr>agg_Bilde = ''B'', agg_Navn = ''Ola'', agg_Brutto = 45, Lodd_raw = 9 / 4, Lodd = 2\<rparr>]"
  by code_simp

theorem floor_policy_bounds_witness:
  "0 < loddpris example_settings \<and> round_down example_settings
   \<and> aggregate example_settings floor_rows \<noteq> []
   \<and> (\<Sum>e\<leftarrow>aggregate example_settings floor_rows. of_int (Lodd e)) = (3::rat)
   \<and> (\<Sum>e\<leftarrow>aggregate example_settings floor_rows. Lodd_raw e) = 15 / 4
   \<and> list_all (\<lambda>e. of_int (Lodd e) \<le> Lodd_raw e \<and> Lodd_raw e - of_int (Lodd e) < 1)
        (aggregate example_settings floor_rows)"
proof -
  have p: "0 < loddpris example_settings" and rd: "round_down example_settings"
    by (simp_all add: example_settings_def)
  from floor_policy_bounds [OF p rd, of floor_rows, THEN conjunct2]
  have "list_all (\<lambda>e. of_int (Lodd e) \<le> Lodd_raw e \<and> Lodd_raw e - of_int (Lodd e) < 1)
          (aggregate example_settings floor_rows)"
    by (simp only: list_all_iff)
  then show ?thesis
    using p rd by (simp add: floor_rows_agg)
qed

subsection \<open>Rounding to the nearest integer\<close>

lemma round_half_even_half:
  "round_half_even (of_int k + 1 / 2) = (if even k then k else k + 1)"
proof -
  have "\<lfloor>(of_int k + 1 / 2 :: rat)\<rfloor> = k" by (simp add: floor_eq_iff)
  then show ?thesis by (simp add: round_half_even_def Let_def)
qed

lemma round_half_even_tie:
  assumes "\<bar>of_int (round_half_even x) - x\<bar> = 1 / 2"
  shows "even (round_half_even x)"
proof -
  have b: "of_int \<lfloor>x\<rfloor> \<le> x" "x < of_int \<lfloor>x\<rfloor> + 1" by linarith+
  show ?thesis
  proof (cases x rule: round_half_even_cases)
    case down
    from assms down(2) have "\<bar>of_int \<lfloor>x\<rfloor> - x\<bar> = 1 / 2" by simp
    with b down(1) have False by linarith
    then show ?thesis ..
  next
    case up
    from assms up(2) have "\<bar>of_int \<lfloor>x\<rfloor> + 1 - x\<bar> = 1 / 2" by simp
    with b up(1) have False by linarith
    then show ?thesis ..
  next
    case tie_even
    then show ?thesis by simp
  next
    case tie_odd
    then show ?thesis by simp
  qed
qed

lemma nearest_even_unique:
  fixes n m :: int and x :: rat
  assumes n: "\<bar>of_int n - x\<bar> \<le> 1 / 2" "\<bar>of_int n - x\<bar> = 1 / 2 \<longrightarrow> even n"
    and m: "\<bar>of_int m - x\<bar> \<le> 1 / 2" "\<bar>of_int m - x\<bar> = 1 / 2 \<longrightarrow> even m"
  shows "n = m"
proof (rule ccontr)
  assume ne: "n \<noteq> m"
  have d: "\<bar>(of_int n :: rat) - of_int m\<bar> \<le> 1" using n(1) m(1) by linarith
  then have "\<bar>(of_int (n - m) :: rat)\<bar> \<le> 1" by simp
  then have "\<bar>n - m\<bar> \<le> 1" by (metis of_int_abs of_int_le_1_iff)
  with ne have nm: "n = m + 1 \<or> m = n + 1" by linarith
  then have "\<bar>of_int n - x\<bar> = 1 / 2 \<and> \<bar>of_int m - x\<bar> = 1 / 2"
    using n(1) m(1) by (auto simp: abs_if split: if_splits)
  with n(2) m(2) have "even n" "even m" by simp_all
  with nm show False by auto
qed

text \<open>
  C10. In round-to-nearest mode the ticket count of every group is the integer nearest
  to the raw ticket count, and the even one of the two nearest when the raw count lies
  exactly halfway between two integers; no other integer has these two properties. A
  raw count k + 1/2 therefore gives k when k is even and k + 1 when k is odd (raw 2.5
  gives 2, raw 3.5 gives 4).
\<close>

theorem nearest_mode_half_even:
  assumes "0 < loddpris st" and "\<not> round_down st" and "e \<in> set (aggregate st rs)"
  shows "\<bar>of_int (Lodd e) - Lodd_raw e\<bar> \<le> 1 / 2
     \<and> (\<bar>of_int (Lodd e) - Lodd_raw e\<bar> = 1 / 2 \<longrightarrow> even (Lodd e))
     \<and> (\<forall>n. \<bar>of_int n - Lodd_raw e\<bar> \<le> 1 / 2
              \<and> (\<bar>of_int n - Lodd_raw e\<bar> = 1 / 2 \<longrightarrow> even n) \<longrightarrow> n = Lodd e)
     \<and> (Lodd_raw e = of_int k + 1 / 2 \<longrightarrow>
           Lodd e = (if even k then k else k + 1) \<and> even (Lodd e)
           \<and> \<bar>of_int (Lodd e) - Lodd_raw e\<bar> = 1 / 2)"
proof -
  have L: "Lodd e = round_half_even (Lodd_raw e)"
    by (rule Lodd_nearest [OF assms(2,3)])
  have near: "\<bar>of_int (Lodd e) - Lodd_raw e\<bar> \<le> 1 / 2"
    unfolding L by (rule round_half_even_near)
  have tie: "\<bar>of_int (Lodd e) - Lodd_raw e\<bar> = 1 / 2 \<longrightarrow> even (Lodd e)"
    unfolding L using round_half_even_tie [of "Lodd_raw e"] by blast
  have uniq: "\<forall>n. \<bar>of_int n - Lodd_raw e\<bar> \<le> 1 / 2
              \<and> (\<bar>of_int n - Lodd_raw e\<bar> = 1 / 2 \<longrightarrow> even n) \<longrightarrow> n = Lodd e"
    using nearest_even_unique [OF _ _ near tie] by blast
  have half: "Lodd_raw e = of_int k + 1 / 2 \<longrightarrow>
           Lodd e = (if even k then k else k + 1) \<and> even (Lodd e)
           \<and> \<bar>of_int (Lodd e) - Lodd_raw e\<bar> = 1 / 2"
  proof
    assume r: "Lodd_raw e = of_int k + 1 / 2"
    then have "Lodd e = (if even k then k else k + 1)"
      unfolding L by (simp add: round_half_even_half)
    then show "Lodd e = (if even k then k else k + 1) \<and> even (Lodd e)
           \<and> \<bar>of_int (Lodd e) - Lodd_raw e\<bar> = 1 / 2"
      using r by auto
  qed
  from near tie uniq half show ?thesis by blast
qed

lemma nearest_rows_agg:
  "aggregate nearest_settings nearest_rows
     = [\<lparr>agg_Bilde = ''A'', agg_Navn = ''Anna'', agg_Brutto = 50, Lodd_raw = 5 / 2, Lodd = 2\<rparr>,
        \<lparr>agg_Bilde = ''A'', agg_Navn = ''Kari'', agg_Brutto = 45, Lodd_raw = 9 / 4, Lodd = 2\<rparr>,
        \<lparr>agg_Bilde = ''A'', agg_Navn = ''Ola'', agg_Brutto = 70, Lodd_raw = 7 / 2, Lodd = 4\<rparr>,
        \<lparr>agg_Bilde = ''A'', agg_Navn = ''Per'', agg_Brutto = 55, Lodd_raw = 11 / 4, Lodd = 3\<rparr>]"
  by code_simp

text \<open>
  Ticket price 20: a total of 50 is raw 2.5 and gives 2, a total of 70 is raw 3.5 and
  gives 4; away from the halves, 45 is raw 2.25 and gives 2, 55 is raw 2.75 and gives 3.
\<close>

theorem nearest_mode_half_even_witness:
  "0 < loddpris nearest_settings \<and> \<not> round_down nearest_settings
   \<and> aggregate nearest_settings nearest_rows ! 0 \<in> set (aggregate nearest_settings nearest_rows)
   \<and> Lodd_raw (aggregate nearest_settings nearest_rows ! 0) = of_int 2 + 1 / 2
   \<and> Lodd (aggregate nearest_settings nearest_rows ! 0) = 2
   \<and> aggregate nearest_settings nearest_rows ! 2 \<in> set (aggregate nearest_settings nearest_rows)
   \<and> Lodd_raw (aggregate nearest_settings nearest_rows ! 2) = of_int 3 + 1 / 2
   \<and> Lodd (aggregate nearest_settings nearest_rows ! 2) = 4
   \<and> aggregate nearest_settings nearest_rows ! 1 \<in> set (aggregate nearest_settings nearest_rows)
   \<and> Lodd_raw (aggregate nearest_settings nearest_rows ! 1) = 9 / 4
   \<and> Lodd (aggregate nearest_settings nearest_rows ! 1) = 2
   \<and> aggregate nearest_settings nearest_rows ! 3 \<in> set (aggregate nearest_settings nearest_rows)
   \<and> Lodd_raw (aggregate nearest_settings nearest_rows ! 3) = 11 / 4
   \<and> Lodd (aggregate nearest_settings nearest_rows ! 3) = 3"
proof -
  let ?ag = "aggregate nearest_settings nearest_rows"
  have p: "0 < loddpris nearest_settings" and rd: "\<not> round_down nearest_settings"
    by (simp_all add: nearest_settings_def)
  have m: "?ag ! 0 \<in> set ?ag" "?ag ! 1 \<in> set ?ag" "?ag ! 2 \<in> set ?ag" "?ag ! 3 \<in> set ?ag"
    by (simp_all add: nearest_rows_agg)
  have r: "Lodd_raw (?ag ! 0) = of_int 2 + 1 / 2" "Lodd_raw (?ag ! 2) = of_int 3 + 1 / 2"
    "Lodd_raw (?ag ! 1) = 9 / 4" "Lodd_raw (?ag ! 3) = 11 / 4"
    by (simp_all add: nearest_rows_agg)
  have l0: "Lodd (?ag ! 0) = 2"
    using nearest_mode_half_even [OF p rd m(1), of 2] r(1) by simp
  have l2: "Lodd (?ag ! 2) = 4"
    using nearest_mode_half_even [OF p rd m(3), of 3] r(2) by simp
  have "\<bar>of_int 2 - Lodd_raw (?ag ! 1)\<bar> \<le> 1 / 2
          \<and> (\<bar>of_int 2 - Lodd_raw (?ag ! 1)\<bar> = 1 / 2 \<longrightarrow> even (2::int))"
    unfolding r by simp
  then have l1: "Lodd (?ag ! 1) = 2"
    using nearest_mode_half_even [OF p rd m(2), of 0] by (metis (no_types))
  have "\<bar>of_int 3 - Lodd_raw (?ag ! 3)\<bar> \<le> 1 / 2
          \<and> (\<bar>of_int 3 - Lodd_raw (?ag ! 3)\<bar> = 1 / 2 \<longrightarrow> even (3::int))"
    unfolding r by simp
  then have l3: "Lodd (?ag ! 3) = 3"
    using nearest_mode_half_even [OF p rd m(4), of 0] by (metis (no_types))
  from p rd m r l0 l1 l2 l3 show ?thesis by (simp only: simp_thms)
qed

subsection \<open>Totals that are not a multiple of the ticket price\<close>

lemma py_mod_zero_iff:
  assumes "b \<noteq> 0"
  shows "py_mod a b = 0 \<longleftrightarrow> (\<exists>k::int. a = of_int k * b)"
proof
  assume "py_mod a b = 0"
  then have "a = of_int \<lfloor>a / b\<rfloor> * b" by (simp add: py_mod_def mult.commute)
  then show "\<exists>k::int. a = of_int k * b" ..
next
  assume "\<exists>k::int. a = of_int k * b"
  then obtain k :: int where "a = of_int k * b" ..
  with assms show "py_mod a b = 0" by (simp add: py_mod_def)
qed

text \<open>
  C7, as the code has it. An entry is flagged exactly when its Brutto is not an integer
  multiple of the ticket price: the remainder is compared with zero exactly, without a
  tolerance, and the detail table holds the flagged entries with their Brutto and raw
  ticket count.
\<close>

theorem non_multiple_exact_test:
  assumes "0 < loddpris st"
  shows "(is_non_multiple st e
            \<longleftrightarrow> \<not> (\<exists>k::int. agg_Brutto e = of_int k * of_int (loddpris st)))
         \<and> non_multiple st ag
             = map (\<lambda>e. (agg_Bilde e, agg_Navn e, agg_Brutto e, Lodd_raw e))
                 (filter (\<lambda>e. \<not> (\<exists>k::int. agg_Brutto e = of_int k * of_int (loddpris st))) ag)"
proof -
  have nz: "(of_int (loddpris st) :: rat) \<noteq> 0" using assms by simp
  have *: "\<And>e. is_non_multiple st e
              \<longleftrightarrow> \<not> (\<exists>k::int. agg_Brutto e = of_int k * of_int (loddpris st))"
    by (simp add: is_non_multiple_def py_mod_zero_iff [OF nz])
  have eq: "is_non_multiple st
              = (\<lambda>e. \<not> (\<exists>k::int. agg_Brutto e = of_int k * of_int (loddpris st)))"
    by (rule ext) (rule *)
  show ?thesis
  proof
    show "is_non_multiple st e
            \<longleftrightarrow> \<not> (\<exists>k::int. agg_Brutto e = of_int k * of_int (loddpris st))"
      by (rule *)
    show "non_multiple st ag
             = map (\<lambda>e. (agg_Bilde e, agg_Navn e, agg_Brutto e, Lodd_raw e))
                 (filter (\<lambda>e. \<not> (\<exists>k::int. agg_Brutto e = of_int k * of_int (loddpris st))) ag)"
      by (simp only: non_multiple_def eq)
  qed
qed

lemma nm_rows_agg:
  "aggregate example_settings nm_rows
     = [\<lparr>agg_Bilde = ''A'', agg_Navn = ''Anna'', agg_Brutto = 45, Lodd_raw = 9 / 4, Lodd = 2\<rparr>,
        \<lparr>agg_Bilde = ''A'', agg_Navn = ''Ola'', agg_Brutto = 40, Lodd_raw = 2, Lodd = 2\<rparr>]"
  by code_simp

lemma nm_rows_flag:
  "is_non_multiple example_settings (aggregate example_settings nm_rows ! 0)"
  by code_simp

text \<open>
  Ticket price 20 and a total of 45: raw ticket count 2.25, ticket count 2, flagged; 45
  is no integer multiple of 20.
\<close>

theorem non_multiple_exact_test_witness:
  "0 < loddpris example_settings
   \<and> agg_Brutto (aggregate example_settings nm_rows ! 0) = 45
   \<and> Lodd_raw (aggregate example_settings nm_rows ! 0) = 9 / 4
   \<and> Lodd (aggregate example_settings nm_rows ! 0) = 2
   \<and> is_non_multiple example_settings (aggregate example_settings nm_rows ! 0)
   \<and> \<not> (\<exists>k::int. (45::rat) = of_int k * of_int 20)"
proof -
  have p: "0 < loddpris example_settings" by (simp add: example_settings_def)
  have b: "agg_Brutto (aggregate example_settings nm_rows ! 0) = 45"
    by (simp add: nm_rows_agg)
  have l: "loddpris example_settings = 20" by (simp add: example_settings_def)
  from non_multiple_exact_test [OF p, of "aggregate example_settings nm_rows ! 0" "[]"]
    nm_rows_flag
  have "\<not> (\<exists>k::int. (45::rat) = of_int k * of_int 20)"
    unfolding b l by blast
  then show ?thesis using p b nm_rows_flag by (simp add: nm_rows_agg)
qed

text \<open>
  C7, as the specification states it, fails: a total of 20.0000001 at ticket price 20 leaves a
  remainder of about \<open>1e-7\<close>. The code flags the entry; a comparison with the tolerance \<open>1e-6\<close>
  would count it as an exact multiple.
\<close>

theorem eps_tolerance_counterexample:
  "is_non_multiple example_settings tiny_excess
   \<and> \<not> is_non_multiple_eps example_settings tiny_excess"
  by code_simp

subsection \<open>Header locator\<close>

lemma lower_salgssted: "lower ''Salgssted'' = ''salgssted''"
  by code_simp

lemma match_literal_ci_iff:
  "match_literal_ci lit s = Some rest \<longleftrightarrow> (\<exists>w. s = w @ rest \<and> lower w = lower lit)"
proof (induction lit s rule: match_literal_ci.induct)
  case (1 s)
  then show ?case by (auto simp: lower_def)
next
  case (2 p ps)
  then show ?case by (auto simp: lower_def)
next
  case (3 p ps c cs)
  show ?case
  proof (cases "lower_char c = lower_char p")
    case True
    have "(\<exists>w. c # cs = w @ rest \<and> lower w = lower (p # ps))
            \<longleftrightarrow> (\<exists>w'. cs = w' @ rest \<and> lower w' = lower ps)"
    proof
      assume "\<exists>w. c # cs = w @ rest \<and> lower w = lower (p # ps)"
      then obtain w where w: "c # cs = w @ rest" "lower w = lower (p # ps)" by blast
      from w(2) obtain a w' where "w = a # w'" "lower w' = lower ps"
        by (auto simp: lower_def map_eq_Cons_conv)
      with w(1) show "\<exists>w'. cs = w' @ rest \<and> lower w' = lower ps" by auto
    next
      assume "\<exists>w'. cs = w' @ rest \<and> lower w' = lower ps"
      then obtain w' where "cs = w' @ rest" "lower w' = lower ps" by blast
      with True have "c # cs = (c # w') @ rest \<and> lower (c # w') = lower (p # ps)"
        by (simp add: lower_def)
      then show "\<exists>w. c # cs = w @ rest \<and> lower w = lower (p # ps)" by blast
    qed
    with True 3 show ?thesis by simp
  next
    case False
    have "\<not> (\<exists>w. c # cs = w @ rest \<and> lower w = lower (p # ps))"
    proof
      assume "\<exists>w. c # cs = w @ rest \<and> lower w = lower (p # ps)"
      then obtain w where w: "c # cs = w @ rest" "lower w = lower (p # ps)" by blast
      from w(2) obtain a w' where "w = a # w'" "lower_char a = lower_char p"
        by (auto simp: lower_def map_eq_Cons_conv)
      with w(1) False show False by auto
    qed
    with False show ?thesis by simp
  qed
qed

lemma marker_at_iff:
  "marker_at s \<longleftrightarrow>
     (\<exists>w post. s = w @ post \<and> lower w = ''salgssted'' \<and> (post = [] \<or> \<not> is_word (hd post)))"
proof
  assume "marker_at s"
  then obtain rest where r: "match_literal_ci ''Salgssted'' s = Some rest"
    and b: "rest = [] \<or> \<not> is_word (hd rest)"
    by (auto simp: marker_at_def split: option.splits list.splits)
  from r obtain w where "s = w @ rest" "lower w = ''salgssted''"
    by (auto simp: match_literal_ci_iff lower_salgssted)
  with b show "\<exists>w post. s = w @ post \<and> lower w = ''salgssted'' \<and> (post = [] \<or> \<not> is_word (hd post))"
    by blast
next
  assume "\<exists>w post. s = w @ post \<and> lower w = ''salgssted'' \<and> (post = [] \<or> \<not> is_word (hd post))"
  then obtain w post where s: "s = w @ post" and w: "lower w = ''salgssted''"
    and b: "post = [] \<or> \<not> is_word (hd post)" by blast
  from s w have "match_literal_ci ''Salgssted'' s = Some post"
    by (auto simp: match_literal_ci_iff lower_salgssted)
  with b show "marker_at s"
    by (auto simp: marker_at_def split: list.splits)
qed

lemma marker_search_iff:
  "marker_search prev s \<longleftrightarrow>
     (\<exists>pre w post. s = pre @ w @ post \<and> lower w = ''salgssted''
        \<and> (if pre = [] then \<not> prev else \<not> is_word (last pre))
        \<and> (post = [] \<or> \<not> is_word (hd post)))"
proof (induction s arbitrary: prev)
  case Nil
  then show ?case by (simp add: lower_def)
next
  case (Cons c cs)
  show ?case
  proof
    assume "marker_search prev (c # cs)"
    then consider "\<not> prev" "marker_at (c # cs)" | "marker_search (is_word c) cs" by auto
    then show "\<exists>pre w post. c # cs = pre @ w @ post \<and> lower w = ''salgssted''
        \<and> (if pre = [] then \<not> prev else \<not> is_word (last pre))
        \<and> (post = [] \<or> \<not> is_word (hd post))"
    proof cases
      case 1
      from 1(2) obtain w post where "c # cs = w @ post" "lower w = ''salgssted''"
        "post = [] \<or> \<not> is_word (hd post)" by (auto simp: marker_at_iff)
      with 1(1) have "c # cs = [] @ w @ post \<and> lower w = ''salgssted''
        \<and> (if ([]::string) = [] then \<not> prev else \<not> is_word (last []))
        \<and> (post = [] \<or> \<not> is_word (hd post))" by simp
      then show ?thesis by blast
    next
      case 2
      then obtain pre w post where p: "cs = pre @ w @ post" "lower w = ''salgssted''"
        "if pre = [] then \<not> is_word c else \<not> is_word (last pre)"
        "post = [] \<or> \<not> is_word (hd post)"
        unfolding Cons.IH by blast
      then have "c # cs = (c # pre) @ w @ post \<and> lower w = ''salgssted''
        \<and> (if c # pre = [] then \<not> prev else \<not> is_word (last (c # pre)))
        \<and> (post = [] \<or> \<not> is_word (hd post))" by (auto split: if_splits)
      then show ?thesis by blast
    qed
  next
    assume "\<exists>pre w post. c # cs = pre @ w @ post \<and> lower w = ''salgssted''
        \<and> (if pre = [] then \<not> prev else \<not> is_word (last pre))
        \<and> (post = [] \<or> \<not> is_word (hd post))"
    then obtain pre w post where p: "c # cs = pre @ w @ post" "lower w = ''salgssted''"
        "if pre = [] then \<not> prev else \<not> is_word (last pre)"
        "post = [] \<or> \<not> is_word (hd post)" by blast
    show "marker_search prev (c # cs)"
    proof (cases pre)
      case Nil
      with p have "\<not> prev" "marker_at (c # cs)"
        by (auto simp: marker_at_iff)
      then show ?thesis by simp
    next
      case (Cons a pre')
      with p have "cs = pre' @ w @ post" "if pre' = [] then \<not> is_word c else \<not> is_word (last pre')"
        by (auto split: if_splits)
      with p(2,4) have "marker_search (is_word c) cs"
        unfolding Cons.IH by blast
      then show ?thesis by simp
    qed
  qed
qed

lemma cell_has_marker_iff:
  "cell_has_marker s \<longleftrightarrow>
     (\<exists>pre w post. s = pre @ w @ post \<and> lower w = ''salgssted''
        \<and> (pre = [] \<or> \<not> is_word (last pre))
        \<and> (post = [] \<or> \<not> is_word (hd post)))"
  unfolding cell_has_marker_def marker_search_iff
  by (intro ex_cong1 conj_cong refl) auto

lemma find_header_from_Some:
  "find_header_from i n g = Some j \<longleftrightarrow>
     i \<le> j \<and> j < n \<and> j - i < length g \<and> row_has_marker (g ! (j - i))
     \<and> (\<forall>k < j - i. \<not> row_has_marker (g ! k))"
proof (induction g arbitrary: i)
  case Nil
  then show ?case by simp
next
  case (Cons r g)
  show ?case
  proof (cases "n \<le> i")
    case True
    then show ?thesis by auto
  next
    case ni: False
    show ?thesis
    proof (cases "row_has_marker r")
      case True
      with ni show ?thesis by (cases "j = i") (auto simp: less_Suc_eq_0_disj)
    next
      case False
      have "find_header_from i n (r # g) = Some j \<longleftrightarrow> find_header_from (Suc i) n g = Some j"
        using ni False by simp
      also have "\<dots> \<longleftrightarrow> Suc i \<le> j \<and> j < n \<and> j - Suc i < length g \<and> row_has_marker (g ! (j - Suc i))
           \<and> (\<forall>k < j - Suc i. \<not> row_has_marker (g ! k))" by (rule Cons.IH)
      also have "\<dots> \<longleftrightarrow> i \<le> j \<and> j < n \<and> j - i < length (r # g) \<and> row_has_marker ((r # g) ! (j - i))
           \<and> (\<forall>k < j - i. \<not> row_has_marker ((r # g) ! k))"
      proof (cases "j \<le> i")
        case True
        with False show ?thesis by (cases "j = i") auto
      next
        case ji: False
        then obtain d where d: "j - i = Suc d" "j - Suc i = d" by (cases "j - i") auto
        from ji have "Suc i \<le> j" "i \<le> j" by auto
        then show ?thesis using False unfolding d
          by (simp add: All_less_Suc2)
      qed
      finally show ?thesis .
    qed
  qed
qed

lemma find_header_row_Some:
  "find_header_row raw = Some i \<longleftrightarrow>
     i < length raw \<and> i < 200 \<and> row_has_marker (raw ! i) \<and> (\<forall>j<i. \<not> row_has_marker (raw ! j))"
  unfolding find_header_row_def find_header_from_Some by auto

lemma find_header_row_None:
  "find_header_row raw = None \<longleftrightarrow> (\<forall>i. i < length raw \<and> i < 200 \<longrightarrow> \<not> row_has_marker (raw ! i))"
proof
  assume N: "find_header_row raw = None"
  show "\<forall>i. i < length raw \<and> i < 200 \<longrightarrow> \<not> row_has_marker (raw ! i)"
  proof (rule ccontr)
    assume "\<not> (\<forall>i. i < length raw \<and> i < 200 \<longrightarrow> \<not> row_has_marker (raw ! i))"
    then have ex: "\<exists>i. i < length raw \<and> i < 200 \<and> row_has_marker (raw ! i)" by blast
    define m where "m = (LEAST i. i < length raw \<and> i < 200 \<and> row_has_marker (raw ! i))"
    from ex have 1: "m < length raw \<and> m < 200 \<and> row_has_marker (raw ! m)"
      unfolding m_def by (rule LeastI_ex)
    have 2: "\<forall>j<m. \<not> row_has_marker (raw ! j)"
    proof (intro allI impI notI)
      fix j assume "j < m" "row_has_marker (raw ! j)"
      with 1 have "j < length raw \<and> j < 200 \<and> row_has_marker (raw ! j)" by auto
      then have "m \<le> j" unfolding m_def by (rule Least_le)
      with \<open>j < m\<close> show False by simp
    qed
    from 1 2 have "find_header_row raw = Some m" by (simp add: find_header_row_Some)
    with N show False by simp
  qed
next
  assume A: "\<forall>i. i < length raw \<and> i < 200 \<longrightarrow> \<not> row_has_marker (raw ! i)"
  show "find_header_row raw = None"
  proof (cases "find_header_row raw")
    case None
    then show ?thesis .
  next
    case (Some i)
    then have "i < length raw \<and> i < 200 \<and> row_has_marker (raw ! i)"
      by (simp add: find_header_row_Some)
    with A show ?thesis by blast
  qed
qed

lemma row_has_marker_iff:
  "row_has_marker row \<longleftrightarrow>
     (\<exists>cell \<in> set row. \<exists>pre w post. cell = pre @ w @ post \<and> lower w = ''salgssted''
        \<and> (pre = [] \<or> \<not> is_word (last pre))
        \<and> (post = [] \<or> \<not> is_word (hd post)))"
  by (simp add: row_has_marker_def list_ex_iff cell_has_marker_iff)
text \<open>
  C2. The header locator looks at the rows below index 200 only, returns the index of the
  first of them that has a cell containing the marker, and returns None when none of
  them has; a cell contains the marker when some part of it equals "salgssted" after
  lowercasing and has no word character next to it on either side. A longer word such
  as "Salgsstedet" is therefore not a match.
\<close>

theorem find_header_row_first_whole_word:
  "(find_header_row raw = Some i \<longleftrightarrow>
      i < length raw \<and> i < 200 \<and> row_has_marker (raw ! i)
      \<and> (\<forall>j<i. \<not> row_has_marker (raw ! j)))
   \<and> (find_header_row raw = None \<longleftrightarrow>
        (\<forall>i. i < length raw \<and> i < 200 \<longrightarrow> \<not> row_has_marker (raw ! i)))
   \<and> (row_has_marker r \<longleftrightarrow>
        (\<exists>cell \<in> set r. \<exists>pre w post. cell = pre @ w @ post \<and> lower w = ''salgssted''
           \<and> (pre = [] \<or> \<not> is_word (last pre))
           \<and> (post = [] \<or> \<not> is_word (hd post))))"
  using find_header_row_Some [of raw i] find_header_row_None [of raw] row_has_marker_iff [of r]
  by (intro conjI)

lemma example_grid_header: "find_header_row example_grid = Some 5"
  by code_simp

theorem find_header_row_first_whole_word_witness:
  "find_header_row example_grid = Some 5
   \<and> example_grid ! 3 = [''Info'', ''Salgsstedet'', ''nan'']
   \<and> \<not> row_has_marker (example_grid ! 3)
   \<and> example_grid ! 5 = [''Salgsdato'', ''Salgssted'', ''Brutto'']
   \<and> row_has_marker (example_grid ! 5)"
proof -
  from find_header_row_first_whole_word [of example_grid 5, THEN conjunct1] example_grid_header
  have "row_has_marker (example_grid ! 5)" and "\<forall>j<5. \<not> row_has_marker (example_grid ! j)"
    by simp_all
  then have "row_has_marker (example_grid ! 5)" and "\<not> row_has_marker (example_grid ! 3)"
    by simp_all
  then show ?thesis
    using example_grid_header by (simp add: example_grid_def)
qed

subsection \<open>Required columns\<close>

lemma sublist_join: "x \<in> set xs \<Longrightarrow> sublist x (join sep xs)"
proof (induction sep xs rule: join.induct)
  case (1 sep)
  then show ?case by simp
next
  case (2 sep y)
  then show ?case by simp
next
  case (3 sep y z zs)
  show ?case
  proof (cases "x = y")
    case True
    then show ?thesis by (simp add: sublist_append_rightI)
  next
    case False
    with 3 have "sublist x (join sep (z # zs))" by simp
    moreover have "sublist (join sep (z # zs)) ((y @ sep) @ join sep (z # zs))"
      by (rule sublist_append_leftI)
    ultimately have "sublist x ((y @ sep) @ join sep (z # zs))"
      by (rule sublist_order.order_trans)
    then show ?thesis by simp
  qed
qed

lemma sublist_schema_error_message:
  assumes "c \<in> set missing"
  shows "sublist c (schema_error_message missing)"
proof -
  have "sublist c (py_repr_str c)"
    unfolding py_repr_str_def by (rule sublist_appendI)
  moreover have "sublist (py_repr_str c) (join '', '' (map py_repr_str missing))"
    using assms by (intro sublist_join) simp
  ultimately have "sublist c (join '', '' (map py_repr_str missing))"
    by (rule sublist_order.order_trans)
  moreover have "sublist (join '', '' (map py_repr_str missing))
                   ((''Mangler forventede kolonner i rapporten: '' @ ''['')
                      @ join '', '' (map py_repr_str missing) @ '']'')"
    by (rule sublist_appendI)
  ultimately have "sublist c ((''Mangler forventede kolonner i rapporten: '' @ ''['')
                 @ join '', '' (map py_repr_str missing) @ '']'')"
    by (rule sublist_order.order_trans)
  then show ?thesis
    by (simp add: schema_error_message_def py_repr_list_def)
qed

lemma missing_cols_set: "set (missing_cols cols) = set required_cols - set cols"
  by (auto simp: missing_cols_def)

text \<open>
  C9. When one of the columns Salgssted, Transaksjonstype, Brutto is absent from the
  normalised table, the script stops with the schema error, whose message contains the
  name of every missing required column, and no aggregate is produced; when all three
  are present, the outcome is not the schema error.
\<close>

theorem schema_error_iff_column_missing:
  "set required_cols = {''Salgssted'', ''Transaksjonstype'', ''Brutto''}
   \<and> (\<not> set required_cols \<subseteq> set (columns df) \<longrightarrow>
         run_pipeline st df = SchemaError (schema_error_message (missing_cols (columns df)))
         \<and> set (missing_cols (columns df)) = set required_cols - set (columns df)
         \<and> (\<forall>c \<in> set required_cols - set (columns df).
               sublist c (schema_error_message (missing_cols (columns df)))))
   \<and> (set required_cols \<subseteq> set (columns df) \<longrightarrow> (\<forall>m. run_pipeline st df \<noteq> SchemaError m))"
proof (intro conjI impI ballI allI)
  show "set required_cols = {''Salgssted'', ''Transaksjonstype'', ''Brutto''}"
    by (simp add: required_cols_def)
next
  assume "\<not> set required_cols \<subseteq> set (columns df)"
  then have "missing_cols (columns df) \<noteq> []"
    using missing_cols_set [of "columns df"] by auto
  then show "run_pipeline st df = SchemaError (schema_error_message (missing_cols (columns df)))"
    by (simp add: run_pipeline_def Let_def)
next
  show "set (missing_cols (columns df)) = set required_cols - set (columns df)"
    by (rule missing_cols_set)
next
  fix c assume "c \<in> set required_cols - set (columns df)"
  then have "c \<in> set (missing_cols (columns df))" by (simp add: missing_cols_set)
  then show "sublist c (schema_error_message (missing_cols (columns df)))"
    by (rule sublist_schema_error_message)
next
  fix m assume "set required_cols \<subseteq> set (columns df)"
  then have "set (missing_cols (columns df)) = {}"
    by (auto simp: missing_cols_set)
  then have "missing_cols (columns df) = []"
    by simp
  then show "run_pipeline st df \<noteq> SchemaError m"
    by (simp add: run_pipeline_def Let_def)
qed

lemma table_without_columns_missing:
  "missing_cols (columns table_without_columns) = [''Salgssted'', ''Transaksjonstype'']"
  by code_simp

lemma table_with_columns_run:
  "run_pipeline example_settings table_with_columns
     = Report \<lparr>agg = [\<lparr>agg_Bilde = ''A'', agg_Navn = ''Anna'', agg_Brutto = 45,
                        Lodd_raw = 9 / 4, Lodd = 2\<rparr>],
               detail = [(''A'', ''Anna'', 45, 9 / 4)],
               tabs = [(''A'', [\<lparr>agg_Bilde = ''A'', agg_Navn = ''Anna'', agg_Brutto = 45,
                                  Lodd_raw = 9 / 4, Lodd = 2, Lodd_clamped = 2\<rparr>])]\<rparr>"
  by code_simp

text \<open>
  A table without Salgssted and Transaksjonstype stops with the message naming both; a
  table with the three columns goes through to the report.
\<close>

theorem schema_error_iff_column_missing_witness:
  "\<not> set required_cols \<subseteq> set (columns table_without_columns)
   \<and> run_pipeline example_settings table_without_columns
       = SchemaError (''Mangler forventede kolonner i rapporten: ['' @ [CHR 0x27] @ ''Salgssted''
                        @ [CHR 0x27] @ '', '' @ [CHR 0x27] @ ''Transaksjonstype'' @ [CHR 0x27]
                        @ '']'')
   \<and> sublist ''Salgssted'' (schema_error_message (missing_cols (columns table_without_columns)))
   \<and> sublist ''Transaksjonstype''
        (schema_error_message (missing_cols (columns table_without_columns)))
   \<and> set required_cols \<subseteq> set (columns table_with_columns)
   \<and> run_pipeline example_settings table_with_columns \<noteq> SchemaError []"
proof -
  have a: "\<not> set required_cols \<subseteq> set (columns table_without_columns)"
    by (simp add: required_cols_def table_without_columns_def)
  have b: "set required_cols \<subseteq> set (columns table_with_columns)"
    by (simp add: required_cols_def table_with_columns_def)
  have c: "''Salgssted'' \<in> set required_cols - set (columns table_without_columns)"
    "''Transaksjonstype'' \<in> set required_cols - set (columns table_without_columns)"
    by (simp_all add: required_cols_def table_without_columns_def)
  note t1 = schema_error_iff_column_missing [of table_without_columns example_settings]
  note t2 = schema_error_iff_column_missing [of table_with_columns example_settings]
  from t1 a have r: "run_pipeline example_settings table_without_columns
      = SchemaError (schema_error_message (missing_cols (columns table_without_columns)))"
    and s: "\<forall>c \<in> set required_cols - set (columns table_without_columns).
               sublist c (schema_error_message (missing_cols (columns table_without_columns)))"
    by blast+
  from t2 b have n: "run_pipeline example_settings table_with_columns \<noteq> SchemaError []"
    by blast
  have m: "schema_error_message (missing_cols (columns table_without_columns))
       = ''Mangler forventede kolonner i rapporten: ['' @ [CHR 0x27] @ ''Salgssted''
                        @ [CHR 0x27] @ '', '' @ [CHR 0x27] @ ''Transaksjonstype'' @ [CHR 0x27]
                        @ '']''"
    unfolding table_without_columns_missing by code_simp
  from s c have "sublist ''Salgssted'' (schema_error_message (missing_cols (columns table_without_columns)))"
    "sublist ''Transaksjonstype'' (schema_error_message (missing_cols (columns table_without_columns)))"
    by blast+
  with a b r n m show ?thesis by (simp only: simp_thms)
qed

subsection \<open>Name resolver\<close>

lemma last_dropWhile: "dropWhile P xs \<noteq> [] \<Longrightarrow> last (dropWhile P xs) = last xs"
  by (induction xs) (auto split: if_splits)

lemma strip_ends:
  assumes "strip s \<noteq> []"
  shows "\<not> is_space (hd (strip s))" and "\<not> is_space (last (strip s))"
proof -
  define t where "t = dropWhile is_space s"
  define u where "u = dropWhile is_space (rev t)"
  have s: "strip s = rev u" by (simp add: strip_def t_def u_def)
  with assms have u: "u \<noteq> []" by simp
  then have t: "t \<noteq> []" by (auto simp: u_def)
  from u have "\<not> is_space (hd u)" unfolding u_def by (rule hd_dropWhile)
  with u s show "\<not> is_space (last (strip s))" by (simp add: last_rev)
  from u have "last u = last (rev t)" unfolding u_def by (rule last_dropWhile)
  with t have "last u = hd t" by (simp add: last_rev)
  moreover from t have "\<not> is_space (hd t)" unfolding t_def by (rule hd_dropWhile)
  ultimately show "\<not> is_space (hd (strip s))" using u s by (simp add: hd_rev)
qed

lemma strip_id:
  assumes "x \<noteq> []" and "\<not> is_space (hd x)" and "\<not> is_space (last x)"
  shows "strip x = x"
proof -
  from assms(1,2) have "dropWhile is_space x = x" by (cases x) auto
  moreover from assms(1,3) have "dropWhile is_space (rev x) = rev x"
    by (cases "rev x") (auto simp: hd_rev [symmetric])
  ultimately show ?thesis by (simp add: strip_def)
qed

lemma strip_full_name:
  assumes "strip f \<noteq> []" and "strip e \<noteq> []"
  shows "strip (strip f @ CHR '' '' # strip e) = strip f @ CHR '' '' # strip e"
proof (rule strip_id)
  show "strip f @ CHR '' '' # strip e \<noteq> []" by simp
  show "\<not> is_space (hd (strip f @ CHR '' '' # strip e))"
    using assms(1) strip_ends(1) [OF assms(1)] by simp
  show "\<not> is_space (last (strip f @ CHR '' '' # strip e))"
    using assms(2) strip_ends(2) [OF assms(2)] by simp
qed

text \<open>
  C3, as the code has it. The first name is used when, trimmed, it is not empty and is
  not "nan" in any letter case; the trimmed last name is appended after one space under
  the same test; otherwise the trimmed message is used under the same test; otherwise
  the name is "Ukjent". The result is never empty.
\<close>

theorem build_full_name_precedence:
  "build_full_name row =
     (if strip (Fornavn row) \<noteq> [] \<and> lower (strip (Fornavn row)) \<noteq> ''nan'' then
        (if strip (Etternavn row) \<noteq> [] \<and> lower (strip (Etternavn row)) \<noteq> ''nan''
         then strip (Fornavn row) @ '' '' @ strip (Etternavn row)
         else strip (Fornavn row))
      else if strip (Melding row) \<noteq> [] \<and> lower (strip (Melding row)) \<noteq> ''nan''
        then strip (Melding row)
      else ''Ukjent'')
   \<and> build_full_name row \<noteq> []"
proof -
  have eq: "build_full_name row =
     (if strip (Fornavn row) \<noteq> [] \<and> lower (strip (Fornavn row)) \<noteq> ''nan'' then
        (if strip (Etternavn row) \<noteq> [] \<and> lower (strip (Etternavn row)) \<noteq> ''nan''
         then strip (Fornavn row) @ '' '' @ strip (Etternavn row)
         else strip (Fornavn row))
      else if strip (Melding row) \<noteq> [] \<and> lower (strip (Melding row)) \<noteq> ''nan''
        then strip (Melding row)
      else ''Ukjent'')"
    by (simp add: build_full_name_def Let_def strip_full_name)
  moreover have "build_full_name row \<noteq> []"
    unfolding eq by simp
  ultimately show ?thesis by blast
qed

lemma name_rows_spec_examples:
  "strip (Fornavn (name_row ''Anna'' ''nan'' '''')) = ''Anna''"
  "strip (Etternavn (name_row ''Anna'' ''nan'' '''')) = ''nan''"
  "strip (Fornavn (name_row '''' '''' ''Ola Nordmann'')) = ''''"
  "strip (Melding (name_row '''' '''' ''Ola Nordmann'')) = ''Ola Nordmann''"
  "strip (Fornavn (name_row '''' '''' '''')) = ''''"
  "strip (Melding (name_row '''' '''' '''')) = ''''"
  "strip (Fornavn (name_row '' Anna '' ''Berg'' ''x'')) = ''Anna''"
  "strip (Etternavn (name_row '' Anna '' ''Berg'' ''x'')) = ''Berg''"
  by code_simp+

lemma lower_examples:
  "lower ''Anna'' = ''anna''" "lower ''nan'' = ''nan''" "lower ''Berg'' = ''berg''"
  "lower ''Ola Nordmann'' = ''ola nordmann''"
  by code_simp+

text \<open>
  Anna with the last name "nan" is Anna; no first name and the message "Ola Nordmann" is
  Ola Nordmann; nothing at all is Ukjent; Anna Berg is joined with one space.
\<close>

theorem build_full_name_precedence_witness:
  "build_full_name (name_row ''Anna'' ''nan'' '''') = ''Anna''
   \<and> build_full_name (name_row '''' '''' ''Ola Nordmann'') = ''Ola Nordmann''
   \<and> build_full_name (name_row '''' '''' '''') = ''Ukjent''
   \<and> build_full_name (name_row '' Anna '' ''Berg'' ''x'') = ''Anna Berg''"
  using build_full_name_precedence [of "name_row ''Anna'' ''nan'' ''''", THEN conjunct1]
    build_full_name_precedence [of "name_row '''' '''' ''Ola Nordmann''", THEN conjunct1]
    build_full_name_precedence [of "name_row '''' '''' ''''", THEN conjunct1]
    build_full_name_precedence [of "name_row '' Anna '' ''Berg'' ''x''", THEN conjunct1]
  by (simp add: name_rows_spec_examples lower_examples)

text \<open>
  C3, as the specification states it, fails: the first name "Nan" is not the literal text "nan",
  yet the code lowercases before it compares and treats the field as absent.
\<close>

theorem literal_nan_counterexample:
  "build_full_name (name_row ''Nan'' ''Hansen'' '''') = ''Ukjent''
   \<and> build_full_name_spec (name_row ''Nan'' ''Hansen'' '''') = ''Nan Hansen''"
  by code_simp

subsection \<open>Artwork letter\<close>

lemma lower_lodd: "lower ''lodd'' = ''lodd''"
  by code_simp

lemma lower_bilde: "lower ''bilde'' = ''bilde''"
  by code_simp

lemma letter_not_space: "is_letter c \<Longrightarrow> \<not> is_space c"
  by (auto simp: is_space_def is_letter_def is_upper_def is_lower_def less_eq_char_def)

lemma space_lower_char: "is_space c \<Longrightarrow> lower_char c = c"
  by (auto simp: is_space_def lower_char_def is_upper_def less_eq_char_def)

lemma lower_b_not_space: "lower_char c = CHR ''b'' \<Longrightarrow> \<not> is_space c"
proof
  assume b: "lower_char c = CHR ''b''" and "is_space c"
  then have "c = CHR ''b''" by (simp add: space_lower_char)
  with \<open>is_space c\<close> show False by (simp add: is_space_def)
qed

lemma upper_char_letter: "is_letter c \<Longrightarrow> is_upper (upper_char c)"
  by (auto simp: is_letter_def upper_char_def is_upper_def is_lower_def less_eq_char_def)

lemma dropWhile_spaces_then:
  assumes "\<forall>x \<in> set w. is_space x" and "\<not> is_space y"
  shows "dropWhile is_space (w @ y # ys) = y # ys"
  using assms by (induction w) auto

lemma split_spaces:
  obtains w where "s = w @ dropWhile is_space s" and "\<forall>x \<in> set w. is_space x"
proof
  show "s = takeWhile is_space s @ dropWhile is_space s" by simp
  show "\<forall>x \<in> set (takeWhile is_space s). is_space x" by (auto dest: set_takeWhileD)
qed

lemma bilde_match_at_iff:
  "bilde_match_at t = Some g \<longleftrightarrow>
     (\<exists>a w1 c w2 l rest. t = a @ w1 @ c @ w2 @ l # rest
        \<and> lower a = ''lodd'' \<and> (\<forall>x \<in> set w1. is_space x)
        \<and> lower c = ''bilde'' \<and> (\<forall>x \<in> set w2. is_space x)
        \<and> is_letter l \<and> g = [l])"
proof
  assume "bilde_match_at t = Some g"
  then obtain s1 s2 l rest where
    m1: "match_literal_ci ''lodd'' t = Some s1" and
    m2: "match_literal_ci ''bilde'' (dropWhile is_space s1) = Some s2" and
    m3: "dropWhile is_space s2 = l # rest" and l: "is_letter l" and g: "g = [l]"
    by (auto simp: bilde_match_at_def split: option.splits list.splits if_splits)
  from m1 obtain a where a: "t = a @ s1" "lower a = ''lodd''"
    by (auto simp: match_literal_ci_iff lower_lodd)
  obtain w1 where w1: "s1 = w1 @ dropWhile is_space s1" "\<forall>x \<in> set w1. is_space x"
    by (rule split_spaces)
  from m2 obtain c where c: "dropWhile is_space s1 = c @ s2" "lower c = ''bilde''"
    by (auto simp: match_literal_ci_iff lower_bilde)
  obtain w2 where w2: "s2 = w2 @ dropWhile is_space s2" "\<forall>x \<in> set w2. is_space x"
    by (rule split_spaces)
  have "t = a @ w1 @ c @ w2 @ l # rest"
    using a(1) w1(1) c(1) w2(1) m3 by metis
  with a(2) w1(2) c(2) w2(2) l g
  show "\<exists>a w1 c w2 l rest. t = a @ w1 @ c @ w2 @ l # rest
        \<and> lower a = ''lodd'' \<and> (\<forall>x \<in> set w1. is_space x)
        \<and> lower c = ''bilde'' \<and> (\<forall>x \<in> set w2. is_space x)
        \<and> is_letter l \<and> g = [l]"
    by blast
next
  assume "\<exists>a w1 c w2 l rest. t = a @ w1 @ c @ w2 @ l # rest
        \<and> lower a = ''lodd'' \<and> (\<forall>x \<in> set w1. is_space x)
        \<and> lower c = ''bilde'' \<and> (\<forall>x \<in> set w2. is_space x)
        \<and> is_letter l \<and> g = [l]"
  then obtain a w1 c w2 l rest where t: "t = a @ w1 @ c @ w2 @ l # rest"
    and a: "lower a = ''lodd''" and w1: "\<forall>x \<in> set w1. is_space x"
    and c: "lower c = ''bilde''" and w2: "\<forall>x \<in> set w2. is_space x"
    and l: "is_letter l" and g: "g = [l]"
    by blast
  from c obtain c0 c' where c0: "c = c0 # c'" "lower_char c0 = CHR ''b''"
    by (auto simp: lower_def map_eq_Cons_conv)
  have m1: "match_literal_ci ''lodd'' t = Some (w1 @ c @ w2 @ l # rest)"
    using t a by (auto simp: match_literal_ci_iff lower_lodd)
  have d1: "dropWhile is_space (w1 @ c @ w2 @ l # rest) = c @ w2 @ l # rest"
    using dropWhile_spaces_then [OF w1 lower_b_not_space [OF c0(2)], of "c' @ w2 @ l # rest"]
    by (simp add: c0(1))
  have m2: "match_literal_ci ''bilde'' (c @ w2 @ l # rest) = Some (w2 @ l # rest)"
    using c by (auto simp: match_literal_ci_iff lower_bilde)
  have d2: "dropWhile is_space (w2 @ l # rest) = l # rest"
    by (rule dropWhile_spaces_then [OF w2 letter_not_space [OF l]])
  show "bilde_match_at t = Some g"
    by (simp add: bilde_match_at_def m1 d1 m2 d2 l g)
qed

lemma bilde_match_at_length: "bilde_match_at t = Some g \<Longrightarrow> 10 \<le> length t"
proof -
  assume "bilde_match_at t = Some g"
  then obtain a w1 c w2 l rest where t: "t = a @ w1 @ c @ w2 @ l # rest"
    and a: "lower a = ''lodd''" and c: "lower c = ''bilde''"
    unfolding bilde_match_at_iff by blast
  from a have "length (lower a) = 4" by simp
  then have "length a = 4" by (simp add: lower_def)
  moreover from c have "length (lower c) = 5" by simp
  then have "length c = 5" by (simp add: lower_def)
  ultimately show ?thesis using t by simp
qed

lemma bilde_search_Some:
  "bilde_search s = Some g \<longleftrightarrow>
     (\<exists>pre suf. s = pre @ suf \<and> bilde_match_at suf = Some g
        \<and> (\<forall>pre' suf'. s = pre' @ suf' \<and> length pre' < length pre
              \<longrightarrow> bilde_match_at suf' = None))"
proof (induction s)
  case Nil
  then show ?case by auto
next
  case (Cons x xs)
  show ?case
  proof (cases "bilde_match_at (x # xs)")
    case (Some h)
    show ?thesis
    proof
      assume "bilde_search (x # xs) = Some g"
      with Some have "h = g" by simp
      with Some have "x # xs = [] @ (x # xs) \<and> bilde_match_at (x # xs) = Some g
        \<and> (\<forall>pre' suf'. x # xs = pre' @ suf' \<and> length pre' < length ([]::string)
              \<longrightarrow> bilde_match_at suf' = None)" by simp
      then show "\<exists>pre suf. x # xs = pre @ suf \<and> bilde_match_at suf = Some g
        \<and> (\<forall>pre' suf'. x # xs = pre' @ suf' \<and> length pre' < length pre
              \<longrightarrow> bilde_match_at suf' = None)" by blast
    next
      assume "\<exists>pre suf. x # xs = pre @ suf \<and> bilde_match_at suf = Some g
        \<and> (\<forall>pre' suf'. x # xs = pre' @ suf' \<and> length pre' < length pre
              \<longrightarrow> bilde_match_at suf' = None)"
      then obtain pre suf where p: "x # xs = pre @ suf" "bilde_match_at suf = Some g"
        "\<forall>pre' suf'. x # xs = pre' @ suf' \<and> length pre' < length pre
              \<longrightarrow> bilde_match_at suf' = None" by blast
      have "pre = []"
      proof (rule ccontr)
        assume "pre \<noteq> []"
        then have "x # xs = [] @ (x # xs) \<and> length ([]::string) < length pre" by simp
        with p(3) have "bilde_match_at (x # xs) = None" by blast
        with Some show False by simp
      qed
      with p(1,2) have "bilde_match_at (x # xs) = Some g" by simp
      then show "bilde_search (x # xs) = Some g" by simp
    qed
  next
    case None
    have "bilde_search (x # xs) = Some g \<longleftrightarrow> bilde_search xs = Some g"
      using None by simp
    also have "\<dots> \<longleftrightarrow> (\<exists>pre suf. xs = pre @ suf \<and> bilde_match_at suf = Some g
        \<and> (\<forall>pre' suf'. xs = pre' @ suf' \<and> length pre' < length pre
              \<longrightarrow> bilde_match_at suf' = None))" by (rule Cons.IH)
    also have "\<dots> \<longleftrightarrow> (\<exists>pre suf. x # xs = pre @ suf \<and> bilde_match_at suf = Some g
        \<and> (\<forall>pre' suf'. x # xs = pre' @ suf' \<and> length pre' < length pre
              \<longrightarrow> bilde_match_at suf' = None))"
    proof
      assume "\<exists>pre suf. xs = pre @ suf \<and> bilde_match_at suf = Some g
        \<and> (\<forall>pre' suf'. xs = pre' @ suf' \<and> length pre' < length pre
              \<longrightarrow> bilde_match_at suf' = None)"
      then obtain pre suf where p: "xs = pre @ suf" "bilde_match_at suf = Some g"
        "\<forall>pre' suf'. xs = pre' @ suf' \<and> length pre' < length pre
              \<longrightarrow> bilde_match_at suf' = None" by blast
      have "\<forall>pre' suf'. x # xs = pre' @ suf' \<and> length pre' < length (x # pre)
              \<longrightarrow> bilde_match_at suf' = None"
      proof (intro allI impI)
        fix pre' suf' assume h: "x # xs = pre' @ suf' \<and> length pre' < length (x # pre)"
        show "bilde_match_at suf' = None"
        proof (cases pre')
          case Nil
          with h None show ?thesis by simp
        next
          case (Cons y ys)
          with h have "xs = ys @ suf' \<and> length ys < length pre" by simp
          with p(3) show ?thesis by blast
        qed
      qed
      with p(1,2) have "x # xs = (x # pre) @ suf \<and> bilde_match_at suf = Some g
        \<and> (\<forall>pre' suf'. x # xs = pre' @ suf' \<and> length pre' < length (x # pre)
              \<longrightarrow> bilde_match_at suf' = None)" by simp
      then show "\<exists>pre suf. x # xs = pre @ suf \<and> bilde_match_at suf = Some g
        \<and> (\<forall>pre' suf'. x # xs = pre' @ suf' \<and> length pre' < length pre
              \<longrightarrow> bilde_match_at suf' = None)" by blast
    next
      assume "\<exists>pre suf. x # xs = pre @ suf \<and> bilde_match_at suf = Some g
        \<and> (\<forall>pre' suf'. x # xs = pre' @ suf' \<and> length pre' < length pre
              \<longrightarrow> bilde_match_at suf' = None)"
      then obtain pre suf where p: "x # xs = pre @ suf" "bilde_match_at suf = Some g"
        "\<forall>pre' suf'. x # xs = pre' @ suf' \<and> length pre' < length pre
              \<longrightarrow> bilde_match_at suf' = None" by blast
      from p(1,2) None obtain ys where ys: "pre = x # ys" "xs = ys @ suf"
        by (cases pre) auto
      have "\<forall>pre' suf'. xs = pre' @ suf' \<and> length pre' < length ys
              \<longrightarrow> bilde_match_at suf' = None"
      proof (intro allI impI)
        fix pre' suf' assume "xs = pre' @ suf' \<and> length pre' < length ys"
        then have "x # xs = (x # pre') @ suf' \<and> length (x # pre') < length pre"
          using ys by simp
        with p(3) show "bilde_match_at suf' = None" by blast
      qed
      with ys(2) p(2) show "\<exists>pre suf. xs = pre @ suf \<and> bilde_match_at suf = Some g
        \<and> (\<forall>pre' suf'. xs = pre' @ suf' \<and> length pre' < length pre
              \<longrightarrow> bilde_match_at suf' = None)" by blast
    qed
    finally show ?thesis .
  qed
qed

lemma bilde_search_short: "length s < 10 \<Longrightarrow> bilde_search s = None"
proof (rule ccontr)
  assume s: "length s < 10" and "bilde_search s \<noteq> None"
  then obtain g where "bilde_search s = Some g" by auto
  then obtain pre suf where "s = pre @ suf" "bilde_match_at suf = Some g"
    unfolding bilde_search_Some by blast
  with bilde_match_at_length [of suf g] s show False by simp
qed

lemma extract_bilde_search:
  "extract_bilde s = map_option upper (bilde_search s)"
proof (cases "s = [] \<or> lower s = ''nan''")
  case True
  then have "length s < 10"
  proof
    assume "s = []" then show ?thesis by simp
  next
    assume "lower s = ''nan''"
    then have "length (lower s) = 3" by simp
    then show ?thesis by (simp add: lower_def)
  qed
  then have "bilde_search s = None" by (rule bilde_search_short)
  with True show ?thesis by (auto simp: extract_bilde_def)
next
  case False
  then show ?thesis by (auto simp: extract_bilde_def split: option.splits)
qed

lemma truncate_extend: "vipps_row.truncate (vipps_row.extend r ext) = r"
  by (cases r) (simp add: vipps_row.truncate_def vipps_row.extend_def)

lemma Salgssted_extend: "Salgssted (vipps_row.extend r ext) = Salgssted r"
  by (cases r) (simp add: vipps_row.extend_def)

lemma Bilde_extend: "Bilde (vipps_row.extend r \<lparr>Bilde = b, Navn = n\<rparr>) = b"
  by (cases r) (simp add: vipps_row.extend_def)

lemma tag_rows_truncate:
  "map vipps_row.truncate (tag_rows m rs)
     = filter (\<lambda>r. extract_bilde (Salgssted r) \<noteq> None) rs"
  by (induction rs)
     (auto simp: tag_rows_def List.map_filter_simps tag_row_def truncate_extend
           split: option.splits)

lemma tag_rows_Bilde:
  "t \<in> set (tag_rows m rs) \<Longrightarrow> extract_bilde (Salgssted t) = Some (Bilde t)"
  by (induction rs)
     (auto simp: tag_rows_def List.map_filter_simps tag_row_def Salgssted_extend Bilde_extend
           split: option.splits)

text \<open>
  C4, as the code has it. The pattern matches, in any letter case, "lodd", any run of
  whitespace (also none), "bilde", any run of whitespace (also none) and one letter A to
  Z, which is the captured group. The artwork identifier is the captured letter of the
  leftmost match, in upper case. A row whose sale location has no match is removed; the
  rows that stay are unchanged, keep their order and carry the extracted letter.
\<close>

theorem extract_bilde_pattern:
  "(bilde_match_at t = Some g \<longleftrightarrow>
      (\<exists>a w1 c w2 l rest. t = a @ w1 @ c @ w2 @ l # rest
         \<and> lower a = ''lodd'' \<and> (\<forall>x \<in> set w1. is_space x)
         \<and> lower c = ''bilde'' \<and> (\<forall>x \<in> set w2. is_space x)
         \<and> is_letter l \<and> g = [l]))
   \<and> (extract_bilde s = Some b \<longleftrightarrow>
        (\<exists>pre suf l. s = pre @ suf \<and> bilde_match_at suf = Some [l]
           \<and> b = [upper_char l] \<and> is_upper (upper_char l)
           \<and> (\<forall>pre' suf'. s = pre' @ suf' \<and> length pre' < length pre
                 \<longrightarrow> bilde_match_at suf' = None)))
   \<and> map vipps_row.truncate (tag_rows m rs)
        = filter (\<lambda>r. extract_bilde (Salgssted r) \<noteq> None) rs
   \<and> (\<forall>r \<in> set (tag_rows m rs). extract_bilde (Salgssted r) = Some (Bilde r))"
proof (intro conjI)
  show "bilde_match_at t = Some g \<longleftrightarrow>
      (\<exists>a w1 c w2 l rest. t = a @ w1 @ c @ w2 @ l # rest
         \<and> lower a = ''lodd'' \<and> (\<forall>x \<in> set w1. is_space x)
         \<and> lower c = ''bilde'' \<and> (\<forall>x \<in> set w2. is_space x)
         \<and> is_letter l \<and> g = [l])"
    by (rule bilde_match_at_iff)
next
  show "extract_bilde s = Some b \<longleftrightarrow>
        (\<exists>pre suf l. s = pre @ suf \<and> bilde_match_at suf = Some [l]
           \<and> b = [upper_char l] \<and> is_upper (upper_char l)
           \<and> (\<forall>pre' suf'. s = pre' @ suf' \<and> length pre' < length pre
                 \<longrightarrow> bilde_match_at suf' = None))"
  proof
    assume "extract_bilde s = Some b"
    then obtain g where g: "bilde_search s = Some g" "b = upper g"
      by (auto simp: extract_bilde_search)
    from g(1) obtain pre suf where p: "s = pre @ suf" "bilde_match_at suf = Some g"
      "\<forall>pre' suf'. s = pre' @ suf' \<and> length pre' < length pre
            \<longrightarrow> bilde_match_at suf' = None"
      unfolding bilde_search_Some by blast
    from p(2) obtain l where l: "g = [l]" "is_letter l"
      unfolding bilde_match_at_iff by blast
    from l g(2) have "b = [upper_char l]" by (simp add: upper_def)
    moreover from l(2) have "is_upper (upper_char l)" by (rule upper_char_letter)
    ultimately show "\<exists>pre suf l. s = pre @ suf \<and> bilde_match_at suf = Some [l]
           \<and> b = [upper_char l] \<and> is_upper (upper_char l)
           \<and> (\<forall>pre' suf'. s = pre' @ suf' \<and> length pre' < length pre
                 \<longrightarrow> bilde_match_at suf' = None)"
      using p l(1) by blast
  next
    assume "\<exists>pre suf l. s = pre @ suf \<and> bilde_match_at suf = Some [l]
           \<and> b = [upper_char l] \<and> is_upper (upper_char l)
           \<and> (\<forall>pre' suf'. s = pre' @ suf' \<and> length pre' < length pre
                 \<longrightarrow> bilde_match_at suf' = None)"
    then obtain pre suf l where p: "s = pre @ suf" "bilde_match_at suf = Some [l]"
      "b = [upper_char l]"
      "\<forall>pre' suf'. s = pre' @ suf' \<and> length pre' < length pre
            \<longrightarrow> bilde_match_at suf' = None"
      by blast
    from p(1,2,4) have "bilde_search s = Some [l]"
      unfolding bilde_search_Some by blast
    with p(3) show "extract_bilde s = Some b"
      by (simp add: extract_bilde_search upper_def)
  qed
next
  show "map vipps_row.truncate (tag_rows m rs)
        = filter (\<lambda>r. extract_bilde (Salgssted r) \<noteq> None) rs"
    by (rule tag_rows_truncate)
next
  show "\<forall>r \<in> set (tag_rows m rs). extract_bilde (Salgssted r) = Some (Bilde r)"
    by (auto dest: tag_rows_Bilde)
qed

lemma extract_bilde_examples:
  "extract_bilde ''Lodd bilde b'' = Some ''B''"
  "extract_bilde ''LODD BILDE B'' = Some ''B''"
  "extract_bilde ''Lodd bilde 1'' = None"
  "extract_bilde ''Kaffe'' = None"
  by code_simp+

lemma tagger_rows_Salgssted:
  "map Salgssted tagger_rows = [''Lodd bilde b'', ''Lodd bilde 1'', ''LODD BILDE B'']"
  by (simp add: tagger_rows_def sale_row_def)

text \<open>
  "Lodd bilde b" and "LODD BILDE B" both give B; "Lodd bilde 1" passes the substring
  filter, has no letter to extract, and its row is removed.
\<close>

theorem extract_bilde_pattern_witness:
  "extract_bilde ''Lodd bilde b'' = Some ''B''
   \<and> extract_bilde ''LODD BILDE B'' = Some ''B''
   \<and> contains_ci ''Lodd bilde'' ''Lodd bilde 1''
   \<and> extract_bilde ''Lodd bilde 1'' = None
   \<and> map Salgssted tagger_rows = [''Lodd bilde b'', ''Lodd bilde 1'', ''LODD BILDE B'']
   \<and> map vipps_row.truncate (tag_rows Fullt_navn tagger_rows)
       = [sale_row ''Lodd bilde b'' ''Anna'' 20, sale_row ''LODD BILDE B'' ''Kari'' 40]
   \<and> map Bilde (tag_rows Fullt_navn tagger_rows) = [''B'', ''B'']"
proof -
  have c: "contains_ci ''Lodd bilde'' ''Lodd bilde 1''" by code_simp
  have f: "filter (\<lambda>r. extract_bilde (Salgssted r) \<noteq> None) tagger_rows
             = [sale_row ''Lodd bilde b'' ''Anna'' 20, sale_row ''LODD BILDE B'' ''Kari'' 40]"
    by (simp add: tagger_rows_def sale_row_def extract_bilde_examples)
  have b: "map Bilde (tag_rows Fullt_navn tagger_rows) = [''B'', ''B'']"
    by (simp add: tagger_rows_def sale_row_def tag_rows_def List.map_filter_simps tag_row_def
          extract_bilde_examples Bilde_extend)
  from extract_bilde_pattern [of "[]" "[]" "[]" "[]" Fullt_navn tagger_rows]
  have "map vipps_row.truncate (tag_rows Fullt_navn tagger_rows)
          = filter (\<lambda>r. extract_bilde (Salgssted r) \<noteq> None) tagger_rows"
    by blast
  with f have "map vipps_row.truncate (tag_rows Fullt_navn tagger_rows)
       = [sale_row ''Lodd bilde b'' ''Anna'' 20, sale_row ''LODD BILDE B'' ''Kari'' 40]"
    by simp
  with c b show ?thesis
    by (simp only: extract_bilde_examples tagger_rows_Salgssted simp_thms)
qed

text \<open>
  C4, as the specification states it, fails: "Lodd bildeA" passes the substring filter and has
  no whitespace between the phrase and the letter. The code extracts A; a pattern that
  asks for whitespace there would find nothing and the row would be removed.
\<close>

theorem optional_whitespace_counterexample:
  "contains_ci ''Lodd bilde'' ''Lodd bildeA''
   \<and> extract_bilde ''Lodd bildeA'' = Some ''A''
   \<and> extract_bilde_spec ''Lodd bildeA'' = None"
  by code_simp

subsection \<open>The ticket list of one artwork\<close>

lemma insort_key_cong_on:
  assumes "f x = g x" and "\<forall>y \<in> set ys. f y = g y"
  shows "insort_key f x ys = insort_key g x ys"
  using assms by (induction ys) auto

lemma sort_key_cong_on:
  assumes "\<forall>x \<in> set xs. f x = g x"
  shows "sort_key f xs = sort_key g xs"
  using assms
proof (induction xs)
  case Nil
  then show ?case by simp
next
  case (Cons x xs)
  then have "sort_key f xs = sort_key g xs" by simp
  moreover have "insort_key f x (sort_key g xs) = insort_key g x (sort_key g xs)"
    using Cons.prems by (intro insort_key_cong_on) simp_all
  ultimately show ?case by simp
qed

lemma insort_key_map_inner:
  "insort_key f (h x) (map h xs) = map h (insort_key (\<lambda>y. f (h y)) x xs)"
  by (induction xs) auto

lemma sort_key_map_inner:
  "sort_key f (map h xs) = map h (sort_key (\<lambda>y. f (h y)) xs)"
  by (induction xs) (simp_all add: insort_key_map_inner)

lemma clamp_row_fields:
  "Lodd_clamped (clamp_row e) = max (Lodd e) 0"
  "Lodd (clamp_row e) = Lodd e"
  "agg_Navn (clamp_row e) = agg_Navn e"
  "agg_Bilde (clamp_row e) = agg_Bilde e"
  "agg_Brutto (clamp_row e) = agg_Brutto e"
  "Lodd_raw (clamp_row e) = Lodd_raw e"
  by (cases e; simp add: clamp_row_def agg_row.extend_def)+

lemma wheel_names_concat:
  "wheel_names rs = concat (map (\<lambda>r. replicate (nat (Lodd_clamped r)) (agg_Navn r)) rs)"
  by (induction rs) auto

lemma concat_map_filter_nonempty:
  assumes "\<And>x. \<not> P x \<Longrightarrow> f x = []"
  shows "concat (map f (filter P xs)) = concat (map f xs)"
  by (induction xs) (auto simp: assms)

lemma filter_pos_clamp:
  "filter (\<lambda>r. 0 < Lodd_clamped r) (map clamp_row es)
     = map clamp_row (filter (\<lambda>e. 0 < Lodd e) es)"
  by (induction es) (auto simp: clamp_row_fields)

lemma sort_positive_same:
  "sort_key (\<lambda>e. (- max (Lodd e) 0, agg_Navn e)) (filter (\<lambda>e. 0 < Lodd e) es)
     = sort_key (\<lambda>e. (- Lodd e, agg_Navn e)) (filter (\<lambda>e. 0 < Lodd e) es)"
  by (rule sort_key_cong_on) auto

lemma positive_rows_of_sub:
  "filter (\<lambda>r. 0 < Lodd_clamped r) (sub_of b ag)
     = filter (\<lambda>r. 0 < Lodd_clamped r)
         (sort_key (\<lambda>r. (- Lodd_clamped r, agg_Navn r))
            (map clamp_row (filter (\<lambda>e. agg_Bilde e = b) ag)))"
proof -
  let ?G = "filter (\<lambda>e. agg_Bilde e = b) ag"
  have "filter (\<lambda>r. 0 < Lodd_clamped r) (sub_of b ag)
          = map clamp_row (sort_key (\<lambda>e. (- Lodd e, agg_Navn e)) (filter (\<lambda>e. 0 < Lodd e) ?G))"
    by (simp add: sub_of_def sort_sub_def filter_pos_clamp filter_sort)
  moreover have "filter (\<lambda>r. 0 < Lodd_clamped r)
         (sort_key (\<lambda>r. (- Lodd_clamped r, agg_Navn r)) (map clamp_row ?G))
          = map clamp_row
              (sort_key (\<lambda>e. (- max (Lodd e) 0, agg_Navn e)) (filter (\<lambda>e. 0 < Lodd e) ?G))"
    by (simp add: filter_sort filter_pos_clamp sort_key_map_inner clamp_row_fields)
  ultimately show ?thesis by (simp only: sort_positive_same)
qed

lemma wheel_names_sorted_by_clamped:
  "wheel_names (sub_of b ag)
     = concat (map (\<lambda>r. replicate (nat (Lodd_clamped r)) (agg_Navn r))
         (sort_key (\<lambda>r. (- Lodd_clamped r, agg_Navn r))
            (map clamp_row (filter (\<lambda>e. agg_Bilde e = b) ag))))"
proof -
  let ?f = "\<lambda>r::sub_row. replicate (nat (Lodd_clamped r)) (agg_Navn r)"
  let ?P = "\<lambda>r::sub_row. 0 < Lodd_clamped r"
  have drop: "\<And>xs. concat (map ?f (filter ?P xs)) = concat (map ?f xs)"
    by (rule concat_map_filter_nonempty) simp
  have "wheel_names (sub_of b ag) = concat (map ?f (filter ?P (sub_of b ag)))"
    by (simp only: wheel_names_concat drop)
  also have "\<dots> = concat (map ?f (filter ?P
         (sort_key (\<lambda>r. (- Lodd_clamped r, agg_Navn r))
            (map clamp_row (filter (\<lambda>e. agg_Bilde e = b) ag)))))"
    by (simp only: positive_rows_of_sub)
  also have "\<dots> = concat (map ?f
         (sort_key (\<lambda>r. (- Lodd_clamped r, agg_Navn r))
            (map clamp_row (filter (\<lambda>e. agg_Bilde e = b) ag))))"
    by (rule drop)
  finally show ?thesis .
qed

lemma count_list_replicate_if:
  "count_list (replicate k x) y = (if x = y then k else 0)"
  by (induction k) auto

lemma count_list_concat_map:
  "count_list (concat (map f xs)) y = sum_list (map (\<lambda>x. count_list (f x) y) xs)"
  by (induction xs) auto

lemma sum_list_map_insort_key:
  "sum_list (map h (insort_key k x xs)) = h x + sum_list (map (h :: 'a \<Rightarrow> 'b::comm_monoid_add) xs)"
  by (induction xs) (auto simp: add.left_commute)

lemma sum_list_map_sort_key:
  "sum_list (map h (sort_key k xs)) = sum_list (map (h :: 'a \<Rightarrow> 'b::comm_monoid_add) xs)"
  by (induction xs) (simp_all add: sum_list_map_insort_key)

lemma sum_list_if_filter:
  "sum_list (map (\<lambda>x. if P x then h x else 0) xs)
     = sum_list (map (h :: 'a \<Rightarrow> 'b::comm_monoid_add) (filter P xs))"
  by (induction xs) auto

lemma count_wheel_names:
  "count_list (wheel_names (sub_of b ag)) n
     = sum_list (map (\<lambda>e. nat (max (Lodd e) 0))
         (filter (\<lambda>e. (agg_Bilde e, agg_Navn e) = (b, n)) ag))"
proof -
  have "count_list (wheel_names (sub_of b ag)) n
          = sum_list (map (\<lambda>r. if agg_Navn r = n then nat (Lodd_clamped r) else 0) (sub_of b ag))"
    by (simp add: wheel_names_concat count_list_concat_map count_list_replicate_if)
  also have "\<dots> = sum_list (map (\<lambda>e. if agg_Navn e = n then nat (max (Lodd e) 0) else 0)
                       (filter (\<lambda>e. agg_Bilde e = b) ag))"
    by (simp add: sub_of_def sort_sub_def o_def clamp_row_fields sum_list_map_sort_key
          cong: if_cong)
  also have "\<dots> = sum_list (map (\<lambda>e. nat (max (Lodd e) 0))
                       (filter (\<lambda>e. agg_Navn e = n) (filter (\<lambda>e. agg_Bilde e = b) ag)))"
    by (rule sum_list_if_filter)
  also have "filter (\<lambda>e. agg_Navn e = n) (filter (\<lambda>e. agg_Bilde e = b) ag)
               = filter (\<lambda>e. (agg_Bilde e, agg_Navn e) = (b, n)) ag"
    by (simp add: conj_commute)
  finally show ?thesis .
qed

lemma aggregate_own_key:
  assumes "e \<in> set (aggregate st rs)"
  shows "filter (\<lambda>x. (agg_Bilde x, agg_Navn x) = (agg_Bilde e, agg_Navn e)) (aggregate st rs) = [e]"
proof -
  from aggregate_mem [OF assms] obtain k where k: "k \<in> group_key ` set rs" "e = agg_entry st rs k"
    by blast
  then have "(agg_Bilde e, agg_Navn e) = k" by (simp add: agg_entry_key)
  with aggregate_entry_for_key [OF k(1), of st] k(2) show ?thesis by simp
qed

text \<open>
  C5. The ticket list of an artwork is the list of buyer names, each repeated as many
  times as its clamped ticket count, taken in the order of the clamped ticket count
  descending and then the name ascending; the exported text joins the list with
  newlines. In the list made from an aggregate, the name of an entry occurs exactly its
  clamped ticket count times.
\<close>

theorem wheel_names_order_and_counts:
  "wheel_names (sub_of b ag)
     = concat (map (\<lambda>r. replicate (nat (Lodd_clamped r)) (agg_Navn r))
         (sort_key (\<lambda>r. (- Lodd_clamped r, agg_Navn r))
            (map clamp_row (filter (\<lambda>e. agg_Bilde e = b) ag))))
   \<and> wheel_text (sub_of b ag) = join [CHR 0x0A] (wheel_names (sub_of b ag))
   \<and> (e \<in> set (aggregate st rs) \<longrightarrow>
         Lodd_clamped (clamp_row e) = max (Lodd e) 0
         \<and> count_list (wheel_names (sub_of (agg_Bilde e) (aggregate st rs))) (agg_Navn e)
             = nat (Lodd_clamped (clamp_row e)))"
proof (intro conjI impI)
  show "wheel_names (sub_of b ag)
     = concat (map (\<lambda>r. replicate (nat (Lodd_clamped r)) (agg_Navn r))
         (sort_key (\<lambda>r. (- Lodd_clamped r, agg_Navn r))
            (map clamp_row (filter (\<lambda>e. agg_Bilde e = b) ag))))"
    by (rule wheel_names_sorted_by_clamped)
  show "wheel_text (sub_of b ag) = join [CHR 0x0A] (wheel_names (sub_of b ag))"
    by (simp add: wheel_text_def)
next
  assume e: "e \<in> set (aggregate st rs)"
  show "Lodd_clamped (clamp_row e) = max (Lodd e) 0"
    by (rule clamp_row_fields)
  have "count_list (wheel_names (sub_of (agg_Bilde e) (aggregate st rs))) (agg_Navn e)
          = sum_list (map (\<lambda>x. nat (max (Lodd x) 0))
              (filter (\<lambda>x. (agg_Bilde x, agg_Navn x) = (agg_Bilde e, agg_Navn e))
                 (aggregate st rs)))"
    by (rule count_wheel_names)
  also have "\<dots> = nat (max (Lodd e) 0)"
    unfolding aggregate_own_key [OF e] by simp
  finally show "count_list (wheel_names (sub_of (agg_Bilde e) (aggregate st rs))) (agg_Navn e)
             = nat (Lodd_clamped (clamp_row e))"
    by (simp add: clamp_row_fields)
qed

lemma wheel_rows_agg:
  "aggregate example_settings wheel_rows
     = [\<lparr>agg_Bilde = ''A'', agg_Navn = ''Ada'', agg_Brutto = - 40, Lodd_raw = - 2, Lodd = - 2\<rparr>,
        \<lparr>agg_Bilde = ''A'', agg_Navn = ''Anna'', agg_Brutto = 45, Lodd_raw = 9 / 4, Lodd = 2\<rparr>,
        \<lparr>agg_Bilde = ''A'', agg_Navn = ''Kari'', agg_Brutto = 40, Lodd_raw = 2, Lodd = 2\<rparr>,
        \<lparr>agg_Bilde = ''A'', agg_Navn = ''Ola'', agg_Brutto = 60, Lodd_raw = 3, Lodd = 3\<rparr>,
        \<lparr>agg_Bilde = ''A'', agg_Navn = ''Zed'', agg_Brutto = - 20, Lodd_raw = - 1, Lodd = - 1\<rparr>,
        \<lparr>agg_Bilde = ''B'', agg_Navn = ''Anna'', agg_Brutto = 20, Lodd_raw = 1, Lodd = 1\<rparr>]"
  by code_simp

lemma wheel_rows_by_clamped:
  "concat (map (\<lambda>r. replicate (nat (Lodd_clamped r)) (agg_Navn r))
         (sort_key (\<lambda>r. (- Lodd_clamped r, agg_Navn r))
            (map clamp_row (filter (\<lambda>e. agg_Bilde e = ''A'')
               (aggregate example_settings wheel_rows)))))
     = [''Ola'', ''Ola'', ''Ola'', ''Anna'', ''Anna'', ''Kari'', ''Kari'']"
  by code_simp

lemma wheel_rows_text:
  "join [CHR 0x0A] [''Ola'', ''Ola'', ''Ola'', ''Anna'', ''Anna'', ''Kari'', ''Kari'']
     = ''Ola'' @ [CHR 0x0A] @ ''Ola'' @ [CHR 0x0A] @ ''Ola'' @ [CHR 0x0A] @ ''Anna'' @ [CHR 0x0A]
         @ ''Anna'' @ [CHR 0x0A] @ ''Kari'' @ [CHR 0x0A] @ ''Kari''"
  by simp

text \<open>
  Artwork A at ticket price 20: Ola paid 60, Anna 45, Kari 40, Zed is at -20 and Ada at
  -40 after refunds. The list is Ola three times, Anna twice, Kari twice.
\<close>

theorem wheel_names_order_and_counts_witness:
  "wheel_names (sub_of ''A'' (aggregate example_settings wheel_rows))
     = [''Ola'', ''Ola'', ''Ola'', ''Anna'', ''Anna'', ''Kari'', ''Kari'']
   \<and> wheel_text (sub_of ''A'' (aggregate example_settings wheel_rows))
       = ''Ola'' @ [CHR 0x0A] @ ''Ola'' @ [CHR 0x0A] @ ''Ola'' @ [CHR 0x0A] @ ''Anna'' @ [CHR 0x0A]
           @ ''Anna'' @ [CHR 0x0A] @ ''Kari'' @ [CHR 0x0A] @ ''Kari''
   \<and> aggregate example_settings wheel_rows ! 1 \<in> set (aggregate example_settings wheel_rows)
   \<and> agg_Navn (aggregate example_settings wheel_rows ! 1) = ''Anna''
   \<and> count_list (wheel_names (sub_of ''A'' (aggregate example_settings wheel_rows))) ''Anna'' = 2"
proof -
  note t = wheel_names_order_and_counts [of "''A''" "aggregate example_settings wheel_rows"
      "aggregate example_settings wheel_rows ! 1" example_settings wheel_rows]
  have m: "aggregate example_settings wheel_rows ! 1 \<in> set (aggregate example_settings wheel_rows)"
    by (simp add: wheel_rows_agg)
  have n: "agg_Navn (aggregate example_settings wheel_rows ! 1) = ''Anna''"
    "agg_Bilde (aggregate example_settings wheel_rows ! 1) = ''A''"
    "Lodd (aggregate example_settings wheel_rows ! 1) = 2"
    by (simp_all add: wheel_rows_agg)
  from t have w: "wheel_names (sub_of ''A'' (aggregate example_settings wheel_rows))
     = [''Ola'', ''Ola'', ''Ola'', ''Anna'', ''Anna'', ''Kari'', ''Kari'']"
    unfolding wheel_rows_by_clamped by blast
  from t have "wheel_text (sub_of ''A'' (aggregate example_settings wheel_rows))
       = join [CHR 0x0A] (wheel_names (sub_of ''A'' (aggregate example_settings wheel_rows)))"
    by blast
  then have x: "wheel_text (sub_of ''A'' (aggregate example_settings wheel_rows))
       = ''Ola'' @ [CHR 0x0A] @ ''Ola'' @ [CHR 0x0A] @ ''Ola'' @ [CHR 0x0A] @ ''Anna'' @ [CHR 0x0A]
           @ ''Anna'' @ [CHR 0x0A] @ ''Kari'' @ [CHR 0x0A] @ ''Kari''"
    unfolding w wheel_rows_text .
  from t m have "count_list
       (wheel_names (sub_of (agg_Bilde (aggregate example_settings wheel_rows ! 1))
          (aggregate example_settings wheel_rows)))
       (agg_Navn (aggregate example_settings wheel_rows ! 1))
     = nat (max (Lodd (aggregate example_settings wheel_rows ! 1)) 0)"
    by simp
  then have c: "count_list (wheel_names (sub_of ''A'' (aggregate example_settings wheel_rows))) ''Anna'' = 2"
    unfolding n by simp
  from w x m n(1) c show ?thesis by (simp only: simp_thms)
qed

subsection \<open>Negative totals\<close>



















end
